theory Spec2Isabelle
  imports Main
begin

section \<open>Tokens, lexer and emitter: the collaborators of the parser\<close>

text \<open>
  Modelled from the spec: the token kind enumeration of the lexer module (\<^verbatim>\<open>lex.py\<close>), which
  is imported by \<^verbatim>\<open>parse.py\<close> but is not part of the sources at hand. The constructors are
  exactly the kinds that \<^verbatim>\<open>parse.py\<close> names.
\<close>

datatype TokenType =
    EOF | NEWLINE | NUMBER | IDENT | STRING
  | LABEL | GOTO | YAP | PREACH | NOCAP | IF | THEN | ENDIF | COOKING | RUNITBACK | COOKED
  | EQ | PLUS | MINUS | ASTERISK | SLASH | EQEQ | NOTEQ | LT | LTEQ | GT | GTEQ

text \<open>Python's \<^verbatim>\<open>kind.name\<close>: the name of the enumeration member.\<close>

fun name :: "TokenType \<Rightarrow> string" where
  "name EOF = ''EOF''"
| "name NEWLINE = ''NEWLINE''"
| "name NUMBER = ''NUMBER''"
| "name IDENT = ''IDENT''"
| "name STRING = ''STRING''"
| "name LABEL = ''LABEL''"
| "name GOTO = ''GOTO''"
| "name YAP = ''YAP''"
| "name PREACH = ''PREACH''"
| "name NOCAP = ''NOCAP''"
| "name IF = ''IF''"
| "name THEN = ''THEN''"
| "name ENDIF = ''ENDIF''"
| "name COOKING = ''COOKING''"
| "name RUNITBACK = ''RUNITBACK''"
| "name COOKED = ''COOKED''"
| "name EQ = ''EQ''"
| "name PLUS = ''PLUS''"
| "name MINUS = ''MINUS''"
| "name ASTERISK = ''ASTERISK''"
| "name SLASH = ''SLASH''"
| "name EQEQ = ''EQEQ''"
| "name NOTEQ = ''NOTEQ''"
| "name LT = ''LT''"
| "name LTEQ = ''LTEQ''"
| "name GT = ''GT''"
| "name GTEQ = ''GTEQ''"

text \<open>
  Modelled from the spec: a token is the pair of its literal text and its kind. The field
  for the text is \<open>text'\<close>, since \<open>text\<close> is a keyword of the theory language.
\<close>

record Token =
  text' :: string
  kind :: TokenType

text \<open>Modelled from the spec: the constructor \<^verbatim>\<open>Token(tokenText, tokenKind)\<close> of the lexer.\<close>

definition Token_init :: "string \<Rightarrow> TokenType \<Rightarrow> Token" where
  "Token_init tokenText tokenKind = \<lparr>text' = tokenText, kind = tokenKind\<rparr>"

text \<open>
  Modelled from the spec: the pull interface of the lexer, \<^verbatim>\<open>Lexer.getToken\<close>. The lexer is the
  list of the tokens it has not handed out yet; once the list is used up it returns the
  end-of-file token, again and again.
\<close>

definition getToken :: "Token list \<Rightarrow> Token \<times> Token list" where
  "getToken l = (case l of [] \<Rightarrow> (Token_init [] EOF, []) | t # ts \<Rightarrow> (t, ts))"

text \<open>
  Modelled from the spec: the emitter (\<^verbatim>\<open>emit.py\<close>) accumulates two texts, the header region
  and the body region; \<^verbatim>\<open>emit\<close> appends to the body, \<^verbatim>\<open>emitLine\<close> appends to the body and
  ends the line, \<^verbatim>\<open>headerLine\<close> appends to the header and ends the line.
\<close>

record Emitter =
  header :: string
  code :: string

definition Emitter_init :: Emitter where
  "Emitter_init = \<lparr>header = [], code = []\<rparr>"

definition Emitter_emit :: "string \<Rightarrow> Emitter \<Rightarrow> Emitter" where
  "Emitter_emit c e = e\<lparr>code := code e @ c\<rparr>"

definition Emitter_emitLine :: "string \<Rightarrow> Emitter \<Rightarrow> Emitter" where
  "Emitter_emitLine c e = e\<lparr>code := code e @ c @ ''\<newline>''\<rparr>"

definition Emitter_headerLine :: "string \<Rightarrow> Emitter \<Rightarrow> Emitter" where
  "Emitter_headerLine c e = e\<lparr>header := header e @ c @ ''\<newline>''\<rparr>"

section \<open>The parser state\<close>

text \<open>
  The fields of the class \<^verbatim>\<open>Parser\<close>. The sets \<^verbatim>\<open>symbols\<close> and \<^verbatim>\<open>labelsDeclared\<close> are only
  added to and tested for membership. The set \<^verbatim>\<open>labelsGotoed\<close> is also iterated over at the
  end of \<^verbatim>\<open>program\<close>; Python leaves the order of that iteration open, so the model keeps
  the labels as a duplicate-free list, iterates it in insertion order, and the theorems
  about the final check do not depend on which undeclared label is met first.
\<close>

record Parser =
  lexer :: "Token list"
  emitter :: Emitter
  symbols :: "string set"
  labelsDeclared :: "string set"
  labelsGotoed :: "string list"
  curToken :: Token
  peekToken :: Token

definition add :: "string \<Rightarrow> string list \<Rightarrow> string list" where
  "add x xs = (if x \<in> set xs then xs else xs @ [x])"

text \<open>
  Every error of the parser goes through \<^verbatim>\<open>abort\<close>, which ends the process with the message
  \<^verbatim>\<open>"[Error] " + message\<close>. There is one constructor for each call of \<^verbatim>\<open>abort\<close> in the
  source, holding the values spliced into its message, and \<open>message\<close> gives the text.
\<close>

datatype error =
    Expected TokenType TokenType
  | LabelExists string
  | InvalidStatement string TokenType
  | ExpectedComparison string
  | ReferencingBeforeAssignment string
  | UnexpectedToken string
  | UndeclaredLabel string

fun message :: "error \<Rightarrow> string" where
  "message (Expected k got) = ''[Error] Expected '' @ name k @ '', got '' @ name got"
| "message (LabelExists t) = ''[Error] Label already exists: '' @ t"
| "message (InvalidStatement t k) = ''[Error] Invalid statement at '' @ t @ '' ('' @ name k @ '')''"
| "message (ExpectedComparison t) = ''[Error] Expected comparison operator at: '' @ t"
| "message (ReferencingBeforeAssignment t) = ''[Error] Referencing variable before assignment: '' @ t"
| "message (UnexpectedToken t) = ''[Error] Unpexpected token at '' @ t"
| "message (UndeclaredLabel l) = ''[Error] Attempting to GOTO to undeclared label: '' @ l"

text \<open>
  A production either returns normally with the new parser state (\<open>Inr\<close>), or the process
  ends in \<^verbatim>\<open>abort\<close> (\<open>Inl\<close>): then the result holds the error and the parser state at
  that moment, so that what has been changed before a failure can be stated.
\<close>

type_synonym result = "(error \<times> Parser) + Parser"

definition abort :: "error \<Rightarrow> Parser \<Rightarrow> result" where
  "abort e p = Inl (e, p)"

text \<open>Sequencing: the rest of a procedure runs only if the call before it returned.\<close>

definition and_then :: "result \<Rightarrow> (Parser \<Rightarrow> result) \<Rightarrow> result" where
  "and_then r f = (case r of Inl e \<Rightarrow> Inl e | Inr p \<Rightarrow> f p)"

definition emit :: "string \<Rightarrow> Parser \<Rightarrow> Parser" where
  "emit c p = p\<lparr>emitter := Emitter_emit c (emitter p)\<rparr>"

definition emitLine :: "string \<Rightarrow> Parser \<Rightarrow> Parser" where
  "emitLine c p = p\<lparr>emitter := Emitter_emitLine c (emitter p)\<rparr>"

definition headerLine :: "string \<Rightarrow> Parser \<Rightarrow> Parser" where
  "headerLine c p = p\<lparr>emitter := Emitter_headerLine c (emitter p)\<rparr>"

section \<open>Token control\<close>

definition checkToken :: "TokenType \<Rightarrow> Parser \<Rightarrow> bool" where
  "checkToken k p = (k = kind (curToken p))"

definition checkPeek :: "TokenType \<Rightarrow> Parser \<Rightarrow> bool" where
  "checkPeek k p = (k = kind (peekToken p))"

definition nextToken :: "Parser \<Rightarrow> Parser" where
  "nextToken p =
     (let (t, l) = getToken (lexer p)
      in p\<lparr>curToken := peekToken p, peekToken := t, lexer := l\<rparr>)"

definition match :: "TokenType \<Rightarrow> Parser \<Rightarrow> result" where
  "match k p =
     (if \<not> checkToken k p then abort (Expected k (kind (curToken p))) p
      else Inr (nextToken p))"

definition isComparisonOperator :: "Parser \<Rightarrow> bool" where
  "isComparisonOperator p =
     (checkToken GT p \<or> checkToken GTEQ p \<or> checkToken LT p \<or> checkToken LTEQ p
      \<or> checkToken EQEQ p \<or> checkToken NOTEQ p)"

text \<open>
  The constructor: the cursor is filled by two calls of \<^verbatim>\<open>nextToken\<close>, so that the first
  token of the stream is current and the second is the lookahead.
\<close>

definition Parser_init :: "Token list \<Rightarrow> Emitter \<Rightarrow> Parser" where
  "Parser_init lx em =
     (let (t1, l1) = getToken lx; (t2, l2) = getToken l1
      in \<lparr>lexer = l2, emitter = em, symbols = {}, labelsDeclared = {}, labelsGotoed = [],
          curToken = t1, peekToken = t2\<rparr>)"

section \<open>What every step of the parser keeps\<close>

text \<open>
  The number of tokens still ahead of the parser, not counting an end-of-file token in the
  cursor: the measure by which the loops of the parser end.
\<close>

definition remaining :: "Parser \<Rightarrow> nat" where
  "remaining p =
     length (lexer p) + (if kind (peekToken p) = EOF then 0 else 1)
       + (if kind (curToken p) = EOF then 0 else 1)"

text \<open>
  A relation between an earlier and a later parser state is \<open>steady\<close> when it is reflexive
  and transitive and holds across advancing the cursor and across emitting to the body,
  which is all that the productions for expressions, comparisons and newlines do. It is
  \<open>closed\<close> when it also holds across the other elementary operations of a statement:
  declaring a new variable together with its header line, recording a new declared label,
  recording a jump target.
\<close>

definition steady :: "(Parser \<Rightarrow> Parser \<Rightarrow> bool) \<Rightarrow> bool" where
  "steady R \<longleftrightarrow>
     (\<forall>p. R p p) \<and>
     (\<forall>p q r. R p q \<longrightarrow> R q r \<longrightarrow> R p r) \<and>
     (\<forall>p. R p (nextToken p)) \<and>
     (\<forall>c p. R p (emit c p)) \<and>
     (\<forall>c p. R p (emitLine c p))"

definition closed :: "(Parser \<Rightarrow> Parser \<Rightarrow> bool) \<Rightarrow> bool" where
  "closed R \<longleftrightarrow>
     steady R \<and>
     (\<forall>p. text' (curToken p) \<notin> symbols p \<longrightarrow>
        R p (headerLine (''float '' @ text' (curToken p) @ '';'')
              (p\<lparr>symbols := insert (text' (curToken p)) (symbols p)\<rparr>))) \<and>
     (\<forall>p. text' (curToken p) \<notin> labelsDeclared p \<longrightarrow>
        R p (p\<lparr>labelsDeclared := insert (text' (curToken p)) (labelsDeclared p)\<rparr>)) \<and>
     (\<forall>p. R p (p\<lparr>labelsGotoed := add (text' (curToken p)) (labelsGotoed p)\<rparr>))"

text \<open>The errors that the productions raise while parsing: all but the one of the final check.\<close>

fun parse_error :: "error \<Rightarrow> bool" where
  "parse_error (UndeclaredLabel l) = False"
| "parse_error e = True"

text \<open>
  \<open>outcome R p0 r\<close>: the state in which the result \<open>r\<close> leaves the parser, be it a normal
  return or a failure, is related to \<open>p0\<close>, and a failure is a parse error.
\<close>

definition outcome :: "(Parser \<Rightarrow> Parser \<Rightarrow> bool) \<Rightarrow> Parser \<Rightarrow> result \<Rightarrow> bool" where
  "outcome R p0 r = (case r of Inl (e, q) \<Rightarrow> parse_error e \<and> R p0 q | Inr q \<Rightarrow> R p0 q)"

lemma and_then_cong [fundef_cong]:
  "r = r' \<Longrightarrow> (\<And>p. r' = Inr p \<Longrightarrow> f p = f' p) \<Longrightarrow> and_then r f = and_then r' f'"
  by (simp add: and_then_def split: sum.split)

lemma and_then_simps [simp]:
  "and_then (Inl e) f = Inl e"
  "and_then (Inr p) f = f p"
  by (simp_all add: and_then_def)

lemma and_then_Inr:
  "and_then r f = Inr q \<longleftrightarrow> (\<exists>p. r = Inr p \<and> f p = Inr q)"
  by (cases r) simp_all

lemma and_then_Inl:
  "and_then r f = Inl e \<longleftrightarrow> r = Inl e \<or> (\<exists>p. r = Inr p \<and> f p = Inl e)"
  by (cases r) auto

lemma checkToken_emit [simp]:
  "checkToken k (emit c p) = checkToken k p"
  "checkToken k (emitLine c p) = checkToken k p"
  "checkToken k (headerLine c p) = checkToken k p"
  by (simp_all add: checkToken_def emit_def emitLine_def headerLine_def)

lemma curToken_emit [simp]:
  "curToken (emit c p) = curToken p"
  "curToken (emitLine c p) = curToken p"
  "curToken (headerLine c p) = curToken p"
  by (simp_all add: emit_def emitLine_def headerLine_def)

lemma closed_steady: "closed R \<Longrightarrow> steady R"
  by (simp add: closed_def)

lemma steady_refl: "steady R \<Longrightarrow> R p p"
  by (simp add: steady_def)

lemma steady_trans: "steady R \<Longrightarrow> R p q \<Longrightarrow> R q r \<Longrightarrow> R p r"
  unfolding steady_def by blast

lemma steady_nextToken: "steady R \<Longrightarrow> R p0 p \<Longrightarrow> R p0 (nextToken p)"
  unfolding steady_def by blast

lemma steady_emit: "steady R \<Longrightarrow> R p0 p \<Longrightarrow> R p0 (emit c p)"
  unfolding steady_def by blast

lemma steady_emitLine: "steady R \<Longrightarrow> R p0 p \<Longrightarrow> R p0 (emitLine c p)"
  unfolding steady_def by blast

lemmas closed_refl = steady_refl [OF closed_steady]
  and closed_trans = steady_trans [OF closed_steady]
  and closed_nextToken = steady_nextToken [OF closed_steady]
  and closed_emit = steady_emit [OF closed_steady]
  and closed_emitLine = steady_emitLine [OF closed_steady]

lemma closed_symbols:
  "closed R \<Longrightarrow> R p0 p \<Longrightarrow> text' (curToken p) \<notin> symbols p \<Longrightarrow>
   R p0 (headerLine (''float '' @ text' (curToken p) @ '';'')
          (p\<lparr>symbols := insert (text' (curToken p)) (symbols p)\<rparr>))"
  unfolding closed_def steady_def by blast

lemma closed_labelsDeclared:
  "closed R \<Longrightarrow> R p0 p \<Longrightarrow> text' (curToken p) \<notin> labelsDeclared p \<Longrightarrow>
   R p0 (p\<lparr>labelsDeclared := insert (text' (curToken p)) (labelsDeclared p)\<rparr>)"
  unfolding closed_def steady_def by blast

lemma closed_labelsGotoed:
  "closed R \<Longrightarrow> R p0 p \<Longrightarrow>
   R p0 (p\<lparr>labelsGotoed := add (text' (curToken p)) (labelsGotoed p)\<rparr>)"
  unfolding closed_def steady_def by blast

lemma outcome_Inr: "R p0 q \<Longrightarrow> outcome R p0 (Inr q)"
  by (simp add: outcome_def)

lemma outcome_abort: "parse_error e \<Longrightarrow> R p0 q \<Longrightarrow> outcome R p0 (abort e q)"
  by (simp add: outcome_def abort_def)

lemma outcome_and_then:
  "outcome R p0 r \<Longrightarrow> (\<And>q. r = Inr q \<Longrightarrow> R p0 q \<Longrightarrow> outcome R p0 (f q)) \<Longrightarrow>
   outcome R p0 (and_then r f)"
  by (cases r) (auto simp: outcome_def)

lemma outcome_if:
  "(c \<Longrightarrow> outcome R p0 a) \<Longrightarrow> (\<not> c \<Longrightarrow> outcome R p0 b) \<Longrightarrow>
   outcome R p0 (if c then a else b)"
  by simp

lemma outcome_start: "closed R \<Longrightarrow> R p0 p \<Longrightarrow> outcome R p r \<Longrightarrow> outcome R p0 r"
  by (auto simp: outcome_def split: sum.splits dest: closed_trans)

lemma outcome_InrD: "outcome R p0 r \<Longrightarrow> r = Inr q \<Longrightarrow> R p0 q"
  by (simp add: outcome_def)

lemma outcome_InlD: "outcome R p0 r \<Longrightarrow> r = Inl (e, q) \<Longrightarrow> parse_error e \<and> R p0 q"
  by (simp add: outcome_def)

text \<open>No step of the parser lets the number of tokens ahead grow.\<close>

lemma remaining_nextToken_le: "remaining (nextToken p) \<le> remaining p"
  by (simp add: remaining_def nextToken_def getToken_def Token_init_def split: list.split)

lemma remaining_nextToken_less:
  "kind (curToken p) \<noteq> EOF \<Longrightarrow> remaining (nextToken p) < remaining p"
  by (simp add: remaining_def nextToken_def getToken_def Token_init_def split: list.split)

lemma remaining_emit [simp]:
  "remaining (emit c p) = remaining p"
  "remaining (emitLine c p) = remaining p"
  "remaining (headerLine c p) = remaining p"
  by (simp_all add: remaining_def emit_def emitLine_def headerLine_def)

lemma remaining_update [simp]:
  "remaining (p\<lparr>symbols := s\<rparr>) = remaining p"
  "remaining (p\<lparr>labelsDeclared := s\<rparr>) = remaining p"
  "remaining (p\<lparr>labelsGotoed := l\<rparr>) = remaining p"
  by (simp_all add: remaining_def)

lemma steady_remaining: "steady (\<lambda>p q. remaining q \<le> remaining p)"
  by (simp add: steady_def remaining_nextToken_le)

lemma closed_remaining: "closed (\<lambda>p q. remaining q \<le> remaining p)"
  by (simp add: closed_def steady_remaining)

lemma match_outcome: "steady R \<Longrightarrow> R p0 p \<Longrightarrow> outcome R p0 (match k p)"
  by (simp add: match_def outcome_abort outcome_Inr steady_nextToken)

section \<open>Expressions\<close>

text \<open>\<^verbatim>\<open>primary ::= number | ident\<close>\<close>

definition primary :: "Parser \<Rightarrow> result" where
  "primary p =
     (if checkToken NUMBER p then Inr (nextToken (emit (text' (curToken p)) p))
      else if checkToken IDENT p then
        (if text' (curToken p) \<notin> symbols p
         then abort (ReferencingBeforeAssignment (text' (curToken p))) p
         else Inr (nextToken (emit (text' (curToken p)) p)))
      else abort (UnexpectedToken (text' (curToken p))) p)"

text \<open>\<^verbatim>\<open>unary ::= ["+" | "-"] primary\<close>\<close>

definition unary :: "Parser \<Rightarrow> result" where
  "unary p =
     primary (if checkToken PLUS p \<or> checkToken MINUS p
              then nextToken (emit (text' (curToken p)) p) else p)"

lemma primary_outcome: "steady R \<Longrightarrow> R p0 p \<Longrightarrow> outcome R p0 (primary p)"
  by (simp add: primary_def outcome_abort outcome_Inr steady_nextToken steady_emit)

lemma unary_outcome: "steady R \<Longrightarrow> R p0 p \<Longrightarrow> outcome R p0 (unary p)"
  by (simp add: unary_def primary_outcome steady_nextToken steady_emit)

text \<open>
  \<^verbatim>\<open>term ::= unary {( "/" | "*") unary}\<close>. The function \<open>term_loop\<close> is the while loop of
  \<^verbatim>\<open>term\<close>, and the procedure itself is \<open>term'\<close>, since \<open>term\<close> is a keyword of the theory
  language.
\<close>

function term_loop :: "Parser \<Rightarrow> result" where
  "term_loop p =
     (if checkToken ASTERISK p \<or> checkToken SLASH p
      then and_then (unary (nextToken (emit (text' (curToken p)) p))) term_loop
      else Inr p)"
  by pat_completeness auto
termination
proof (relation "measure remaining")
  fix p q
  assume c: "checkToken ASTERISK p \<or> checkToken SLASH p"
    and u: "unary (nextToken (emit (text' (curToken p)) p)) = Inr q"
  from c have "kind (curToken (emit (text' (curToken p)) p)) \<noteq> EOF"
    by (auto simp: checkToken_def)
  from remaining_nextToken_less [OF this]
    outcome_InrD [OF unary_outcome [OF steady_remaining order_refl] u]
  show "(q, p) \<in> measure remaining" by simp
qed simp

declare term_loop.simps [simp del]

definition term' :: "Parser \<Rightarrow> result" where
  "term' p = and_then (unary p) term_loop"

lemma term_loop_outcome: "steady R \<Longrightarrow> R p0 p \<Longrightarrow> outcome R p0 (term_loop p)"
proof (induction p rule: term_loop.induct)
  case (1 p)
  note R = \<open>steady R\<close>
  show ?case
    by (subst term_loop.simps)
      (intro outcome_if outcome_and_then outcome_Inr unary_outcome [OF R] steady_nextToken [OF R]
        steady_emit [OF R] "1.prems" "1.IH" [OF _ _ R]; assumption)
qed

lemma term_outcome: "steady R \<Longrightarrow> R p0 p \<Longrightarrow> outcome R p0 (term' p)"
  unfolding term'_def
  by (intro outcome_and_then unary_outcome term_loop_outcome)

text \<open>
  \<^verbatim>\<open>expression ::= term {( "-" | "+") term}\<close>. The function \<open>expression_loop\<close> is the while
  loop of \<^verbatim>\<open>expression\<close>.
\<close>

function expression_loop :: "Parser \<Rightarrow> result" where
  "expression_loop p =
     (if checkToken PLUS p \<or> checkToken MINUS p
      then and_then (term' (nextToken (emit (text' (curToken p)) p))) expression_loop
      else Inr p)"
  by pat_completeness auto
termination
proof (relation "measure remaining")
  fix p q
  assume c: "checkToken PLUS p \<or> checkToken MINUS p"
    and u: "term' (nextToken (emit (text' (curToken p)) p)) = Inr q"
  from c have "kind (curToken (emit (text' (curToken p)) p)) \<noteq> EOF"
    by (auto simp: checkToken_def)
  from remaining_nextToken_less [OF this]
    outcome_InrD [OF term_outcome [OF steady_remaining order_refl] u]
  show "(q, p) \<in> measure remaining" by simp
qed simp

declare expression_loop.simps [simp del]

definition expression :: "Parser \<Rightarrow> result" where
  "expression p = and_then (term' p) expression_loop"

lemma expression_loop_outcome: "steady R \<Longrightarrow> R p0 p \<Longrightarrow> outcome R p0 (expression_loop p)"
proof (induction p rule: expression_loop.induct)
  case (1 p)
  note R = \<open>steady R\<close>
  show ?case
    by (subst expression_loop.simps)
      (intro outcome_if outcome_and_then outcome_Inr term_outcome [OF R] steady_nextToken [OF R]
        steady_emit [OF R] "1.prems" "1.IH" [OF _ _ R]; assumption)
qed

lemma expression_outcome: "steady R \<Longrightarrow> R p0 p \<Longrightarrow> outcome R p0 (expression p)"
  unfolding expression_def
  by (intro outcome_and_then term_outcome expression_loop_outcome)

section \<open>Comparisons\<close>

text \<open>
  \<^verbatim>\<open>comparison ::= expression (("==" | "!=" | ">" | ">=" | "<" | "<=") expression)+\<close>.
  The function \<open>comparison_loop\<close> is the while loop at the end of \<^verbatim>\<open>comparison\<close>.
\<close>

function comparison_loop :: "Parser \<Rightarrow> result" where
  "comparison_loop p =
     (if isComparisonOperator p
      then and_then (expression (nextToken (emit (text' (curToken p)) p))) comparison_loop
      else Inr p)"
  by pat_completeness auto
termination
proof (relation "measure remaining")
  fix p q
  assume c: "isComparisonOperator p"
    and u: "expression (nextToken (emit (text' (curToken p)) p)) = Inr q"
  from c have "kind (curToken (emit (text' (curToken p)) p)) \<noteq> EOF"
    by (auto simp: isComparisonOperator_def checkToken_def)
  from remaining_nextToken_less [OF this]
    outcome_InrD [OF expression_outcome [OF steady_remaining order_refl] u]
  show "(q, p) \<in> measure remaining" by simp
qed simp

declare comparison_loop.simps [simp del]

definition comparison :: "Parser \<Rightarrow> result" where
  "comparison p =
     and_then (expression p) (\<lambda>p.
     and_then
       (if isComparisonOperator p
        then expression (nextToken (emit (text' (curToken p)) p))
        else abort (ExpectedComparison (text' (curToken p))) p)
       comparison_loop)"

lemma comparison_loop_outcome: "steady R \<Longrightarrow> R p0 p \<Longrightarrow> outcome R p0 (comparison_loop p)"
proof (induction p rule: comparison_loop.induct)
  case (1 p)
  note R = \<open>steady R\<close>
  show ?case
    by (subst comparison_loop.simps)
      (intro outcome_if outcome_and_then outcome_Inr expression_outcome [OF R]
        steady_nextToken [OF R] steady_emit [OF R] "1.prems" "1.IH" [OF _ _ R]; assumption)
qed

lemma comparison_outcome:
  assumes R: "steady R" and p: "R p0 p"
  shows "outcome R p0 (comparison p)"
  unfolding comparison_def
  by (intro outcome_if outcome_and_then outcome_abort expression_outcome [OF R]
      comparison_loop_outcome [OF R] steady_nextToken [OF R] steady_emit [OF R] p; simp)

section \<open>Newlines\<close>

text \<open>
  The loop \<^verbatim>\<open>while self.checkToken(TokenType.NEWLINE): self.nextToken()\<close>, which stands
  both in \<^verbatim>\<open>nl\<close> and at the start of \<^verbatim>\<open>program\<close>.
\<close>

function skip_newlines :: "Parser \<Rightarrow> Parser" where
  "skip_newlines p = (if checkToken NEWLINE p then skip_newlines (nextToken p) else p)"
  by pat_completeness auto
termination
  by (relation "measure remaining") (auto simp: checkToken_def intro: remaining_nextToken_less)

declare skip_newlines.simps [simp del]

text \<open>\<^verbatim>\<open>nl ::= '\n'+\<close>\<close>

definition nl :: "Parser \<Rightarrow> result" where
  "nl p = and_then (match NEWLINE p) (\<lambda>p. Inr (skip_newlines p))"

lemma skip_newlines_closed: "steady R \<Longrightarrow> R p0 p \<Longrightarrow> R p0 (skip_newlines p)"
proof (induction p rule: skip_newlines.induct)
  case (1 p)
  then show ?case
    by (subst skip_newlines.simps) (simp add: steady_nextToken)
qed

lemma nl_outcome:
  assumes R: "steady R" and p: "R p0 p"
  shows "outcome R p0 (nl p)"
  unfolding nl_def
proof (rule outcome_and_then)
  show "outcome R p0 (match NEWLINE p)" by (rule match_outcome [OF R p])
next
  fix q assume "R p0 q"
  then show "outcome R p0 (Inr (skip_newlines q))"
    by (simp add: outcome_Inr skip_newlines_closed [OF R])
qed

section \<open>Statements\<close>

text \<open>
  The procedure \<^verbatim>\<open>statement\<close>, and \<open>statements_until k\<close> for the loop
  \<^verbatim>\<open>while not self.checkToken(k): self.statement()\<close>, which stands in the bodies of the
  conditional and of the loop statement and in \<^verbatim>\<open>program\<close>.
\<close>

function statement :: "Parser \<Rightarrow> result"
  and statements_until :: "TokenType \<Rightarrow> Parser \<Rightarrow> result" where
  "statement p =
     and_then
       (if checkToken YAP p then
          (let p = nextToken p in
           if checkToken STRING p then
             Inr (nextToken
               (emitLine (''printf(\"'' @ text' (curToken p) @ [CHR 0x5C] @ ''n\");'') p))
           else
             and_then
               (expression (emit (''printf(\"%.2f'' @ [CHR 0x5C] @ ''n\", (float)('') p))
               (\<lambda>p. Inr (emitLine ''));'' p)))
        else if checkToken IF p then
          and_then (comparison (emit ''if('' (nextToken p))) (\<lambda>p.
          and_then (match THEN p) (\<lambda>p.
          and_then (nl p) (\<lambda>p.
          and_then (statements_until ENDIF (emitLine '') {'' p)) (\<lambda>p.
          and_then (match ENDIF p) (\<lambda>p.
          Inr (emitLine ''}'' p))))))
        else if checkToken COOKING p then
          and_then (comparison (emit ''while('' (nextToken p))) (\<lambda>p.
          and_then (match RUNITBACK p) (\<lambda>p.
          and_then (nl p) (\<lambda>p.
          and_then (statements_until COOKED (emitLine '') {'' p)) (\<lambda>p.
          and_then (match COOKED p) (\<lambda>p.
          Inr (emitLine ''}'' p))))))
        else if checkToken LABEL p then
          (let p = nextToken p in
           if text' (curToken p) \<in> labelsDeclared p
           then abort (LabelExists (text' (curToken p))) p
           else
             match IDENT
               (emitLine (text' (curToken p) @ '':'')
                 (p\<lparr>labelsDeclared := insert (text' (curToken p)) (labelsDeclared p)\<rparr>)))
        else if checkToken GOTO p then
          (let p = nextToken p in
           match IDENT
             (emitLine (''goto'' @ text' (curToken p) @ '';'')
               (p\<lparr>labelsGotoed := add (text' (curToken p)) (labelsGotoed p)\<rparr>)))
        else if checkToken NOCAP p then
          (let p = nextToken p;
               p = (if text' (curToken p) \<notin> symbols p
                    then headerLine (''float '' @ text' (curToken p) @ '';'')
                           (p\<lparr>symbols := insert (text' (curToken p)) (symbols p)\<rparr>)
                    else p)
           in
             and_then (match IDENT (emit (text' (curToken p) @ '' = '') p)) (\<lambda>p.
             and_then (match EQ p) (\<lambda>p.
             and_then (expression p) (\<lambda>p.
             Inr (emitLine '';'' p)))))
        else if checkToken PREACH p then
          (let p = nextToken p;
               p = (if text' (curToken p) \<notin> symbols p
                    then headerLine (''float '' @ text' (curToken p) @ '';'')
                           (p\<lparr>symbols := insert (text' (curToken p)) (symbols p)\<rparr>)
                    else p)
           in
             match IDENT
               (emitLine ''}''
               (emitLine ''*s\");''
               (emit ''scanf(\"%''
               (emitLine (text' (curToken p) @ '' = 0;'')
               (emitLine (''if(0 == scanf(\"%f\", &'' @ text' (curToken p) @ '')) {'') p))))))
        else
          abort (InvalidStatement (text' (curToken p)) (kind (curToken p))) p)
       nl"
| "statements_until k p =
     (if \<not> checkToken k p then and_then (statement p) (statements_until k) else Inr p)"
  by pat_completeness auto

text \<open>The part shared by the conditional and the loop statement, from the comparison on.\<close>

lemma block_outcome:
  assumes R: "closed R" and p: "R p0 p"
    and body: "\<And>pa pb pc.
      comparison p = Inr pa \<Longrightarrow> match k1 pa = Inr pb \<Longrightarrow> nl pb = Inr pc \<Longrightarrow>
      outcome R (emitLine '') {'' pc) (body (emitLine '') {'' pc))"
  shows "outcome R p0
    (and_then (comparison p) (\<lambda>p.
     and_then (match k1 p) (\<lambda>p.
     and_then (nl p) (\<lambda>p.
     and_then (body (emitLine '') {'' p)) (\<lambda>p.
     and_then (match k2 p) (\<lambda>p.
     Inr (emitLine ''}'' p)))))))"
proof (rule outcome_and_then [OF comparison_outcome [OF closed_steady [OF R] p]])
  fix pa assume a: "comparison p = Inr pa" "R p0 pa"
  show "outcome R p0
    (and_then (match k1 pa) (\<lambda>p.
     and_then (nl p) (\<lambda>p.
     and_then (body (emitLine '') {'' p)) (\<lambda>p.
     and_then (match k2 p) (\<lambda>p.
     Inr (emitLine ''}'' p))))))"
  proof (rule outcome_and_then [OF match_outcome [OF closed_steady [OF R] a(2)]])
    fix pb assume b: "match k1 pa = Inr pb" "R p0 pb"
    show "outcome R p0
      (and_then (nl pb) (\<lambda>p.
       and_then (body (emitLine '') {'' p)) (\<lambda>p.
       and_then (match k2 p) (\<lambda>p.
       Inr (emitLine ''}'' p)))))"
    proof (rule outcome_and_then [OF nl_outcome [OF closed_steady [OF R] b(2)]])
      fix pc assume c: "nl pb = Inr pc" "R p0 pc"
      have "outcome R p0 (body (emitLine '') {'' pc))"
        by (rule outcome_start [OF R closed_emitLine [OF R c(2)] body [OF a(1) b(1) c(1)]])
      then show "outcome R p0
        (and_then (body (emitLine '') {'' pc)) (\<lambda>p.
         and_then (match k2 p) (\<lambda>p.
         Inr (emitLine ''}'' p))))"
      proof (rule outcome_and_then)
        fix pd assume d: "R p0 pd"
        show "outcome R p0 (and_then (match k2 pd) (\<lambda>p. Inr (emitLine ''}'' p)))"
        proof (rule outcome_and_then [OF match_outcome [OF closed_steady [OF R] d]])
          fix pe assume "R p0 pe"
          then show "outcome R p0 (Inr (emitLine ''}'' pe))"
            by (simp add: outcome_Inr closed_emitLine [OF R])
        qed
      qed
    qed
  qed
qed

text \<open>
  A statement starts with one of seven keywords, which it consumes first; on any other
  token it fails at once.
\<close>

definition starts_statement :: "Parser \<Rightarrow> bool" where
  "starts_statement p \<longleftrightarrow>
     kind (curToken p) \<in> {YAP, IF, COOKING, LABEL, GOTO, NOCAP, PREACH}"

lemma statement_partial:
  assumes R: "closed R"
  shows "statement_statements_until_dom (Inl p) \<Longrightarrow>
      (if starts_statement p then outcome R (nextToken p) (statement p)
       else statement p = abort (InvalidStatement (text' (curToken p)) (kind (curToken p))) p)"
    and "statement_statements_until_dom (Inr (k, p)) \<Longrightarrow> outcome R p (statements_until k p)"
proof (induction rule: statement_statements_until.pinduct)
  case (1 p)
  note eq = statement.psimps [OF "1.hyps"]
  note S = closed_steady [OF R]
  note n = closed_nextToken [OF R] closed_emit [OF R] closed_emitLine [OF R]
  note o = nl_outcome [OF S] match_outcome [OF S] expression_outcome [OF S]
  let ?q = "nextToken p"
  have q: "R ?q ?q" by (rule closed_refl [OF R])
  consider (yap) "checkToken YAP p"
    | (if') "\<not> checkToken YAP p" "checkToken IF p"
    | (cooking) "\<not> checkToken YAP p" "\<not> checkToken IF p" "checkToken COOKING p"
    | (label) "kind (curToken p) = LABEL"
    | (goto) "kind (curToken p) = GOTO"
    | (nocap) "kind (curToken p) = NOCAP"
    | (preach) "kind (curToken p) = PREACH"
    | (other) "\<not> starts_statement p"
    unfolding starts_statement_def checkToken_def by (cases "kind (curToken p)") simp_all
  then show ?case
  proof cases
    case yap
    then have s: "starts_statement p" by (simp add: starts_statement_def checkToken_def)
    have "outcome R ?q (statement p)"
      unfolding eq using yap
      by (auto simp: Let_def intro!: outcome_and_then outcome_Inr o n q)
    with s show ?thesis by simp
  next
    case if'
    then have s: "starts_statement p" by (simp add: starts_statement_def checkToken_def)
    have "outcome R ?q (statement p)"
      unfolding eq using if'
      by (auto intro!: outcome_and_then [OF block_outcome [OF R]] o n q "1.IH"(1))
    with s show ?thesis by simp
  next
    case cooking
    then have s: "starts_statement p" by (simp add: starts_statement_def checkToken_def)
    have "outcome R ?q (statement p)"
      unfolding eq using cooking
      by (auto intro!: outcome_and_then [OF block_outcome [OF R]] o n q "1.IH"(2))
    with s show ?thesis by simp
  next
    case label
    then have s: "starts_statement p" by (simp add: starts_statement_def)
    have "outcome R ?q (statement p)"
      unfolding eq using label
      by (auto simp: Let_def checkToken_def intro!: outcome_and_then outcome_abort o n
          closed_labelsDeclared [OF R] q)
    with s show ?thesis by simp
  next
    case goto
    then have s: "starts_statement p" by (simp add: starts_statement_def)
    have "outcome R ?q (statement p)"
      unfolding eq using goto
      by (auto simp: Let_def checkToken_def intro!: outcome_and_then o n
          closed_labelsGotoed [OF R] q)
    with s show ?thesis by simp
  next
    case nocap
    then have s: "starts_statement p" by (simp add: starts_statement_def)
    have "outcome R ?q (statement p)"
      unfolding eq using nocap
      by (auto simp: Let_def checkToken_def intro!: outcome_and_then outcome_Inr o n
          closed_symbols [OF R q, simplified] q)
    with s show ?thesis by simp
  next
    case preach
    then have s: "starts_statement p" by (simp add: starts_statement_def)
    have "outcome R ?q (statement p)"
      unfolding eq using preach
      by (auto simp: Let_def checkToken_def intro!: outcome_and_then o n
          closed_symbols [OF R q, simplified] q)
    with s show ?thesis by simp
  next
    case other
    then show ?thesis
      unfolding eq by (auto simp: starts_statement_def checkToken_def abort_def)
  qed
next
  case (2 k p)
  note eq = statements_until.psimps [OF "2.hyps"]
  show ?case
  proof (cases "checkToken k p")
    case True
    then show ?thesis unfolding eq by (simp add: outcome_Inr closed_refl [OF R])
  next
    case False
    have st: "outcome R p (statement p)"
    proof (cases "starts_statement p")
      case True
      with "2.IH"(1) [OF False] have "outcome R (nextToken p) (statement p)" by simp
      from outcome_start [OF R closed_nextToken [OF R closed_refl [OF R]] this]
      show ?thesis .
    next
      case False
      with "2.IH"(1) [OF \<open>\<not> checkToken k p\<close>] show ?thesis
        by (simp add: outcome_abort closed_refl [OF R])
    qed
    have "outcome R p (and_then (statement p) (statements_until k))"
    proof (rule outcome_and_then [OF st])
      fix q assume "statement p = Inr q" "R p q"
      then show "outcome R p (statements_until k q)"
        using outcome_start [OF R _ "2.IH"(2) [OF False]] by blast
    qed
    with False show ?thesis unfolding eq by simp
  qed
qed

lemma block_remaining:
  assumes "kind (curToken p) \<noteq> EOF"
    and a: "comparison (emit c (nextToken p)) = Inr pa"
    and b: "match k pa = Inr pb"
    and c: "nl pb = Inr pc"
  shows "remaining (emitLine c' pc) < remaining p"
proof -
  note S = steady_remaining
  have "remaining pa \<le> remaining (emit c (nextToken p))"
    by (rule outcome_InrD [OF comparison_outcome [OF S order_refl] a])
  moreover have "remaining pb \<le> remaining pa"
    by (rule outcome_InrD [OF match_outcome [OF S order_refl] b])
  moreover have "remaining pc \<le> remaining pb"
    by (rule outcome_InrD [OF nl_outcome [OF S order_refl] c])
  ultimately show ?thesis
    using remaining_nextToken_less [OF assms(1)] by simp
qed

lemma statement_consumes_partial:
  assumes d: "statement_statements_until_dom (Inl p)" and s: "statement p = Inr q"
  shows "remaining q < remaining p"
proof -
  from statement_partial(1) [OF closed_remaining d] s
  have k: "starts_statement p" and "outcome (\<lambda>p q. remaining q \<le> remaining p) (nextToken p) (Inr q)"
    by (auto simp: abort_def split: if_splits)
  then have "remaining q \<le> remaining (nextToken p)"
    by (simp add: outcome_def)
  moreover from k have "kind (curToken p) \<noteq> EOF"
    by (auto simp: starts_statement_def)
  ultimately show ?thesis
    using remaining_nextToken_less [of p] by simp
qed

lemma statement_total: "All statement_statements_until_dom"
proof (relation "measure (\<lambda>x. case x of Inl p \<Rightarrow> 2 * remaining p | Inr (k, p) \<Rightarrow> 2 * remaining p + 1)")
  fix p pa pb pc
  assume "checkToken IF p" "comparison (emit ''if('' (nextToken p)) = Inr pa"
    "match THEN pa = Inr pb" "nl pb = Inr pc"
  then have "remaining (emitLine '') {'' pc) < remaining p"
    by (intro block_remaining) (auto simp: checkToken_def)
  then show "(Inr (ENDIF, emitLine '') {'' pc), Inl p)
    \<in> measure (\<lambda>x. case x of Inl p \<Rightarrow> 2 * remaining p | Inr (k, p) \<Rightarrow> 2 * remaining p + 1)"
    by simp
next
  fix p pa pb pc
  assume "checkToken COOKING p" "comparison (emit ''while('' (nextToken p)) = Inr pa"
    "match RUNITBACK pa = Inr pb" "nl pb = Inr pc"
  then have "remaining (emitLine '') {'' pc) < remaining p"
    by (intro block_remaining) (auto simp: checkToken_def)
  then show "(Inr (COOKED, emitLine '') {'' pc), Inl p)
    \<in> measure (\<lambda>x. case x of Inl p \<Rightarrow> 2 * remaining p | Inr (k, p) \<Rightarrow> 2 * remaining p + 1)"
    by simp
next
  fix k p q
  assume "statement p = Inr q" "statement_statements_until_dom (Inl p)"
  then have "remaining q < remaining p"
    by (intro statement_consumes_partial)
  then show "(Inr (k, q), Inr (k, p))
    \<in> measure (\<lambda>x. case x of Inl p \<Rightarrow> 2 * remaining p | Inr (k, p) \<Rightarrow> 2 * remaining p + 1)"
    by simp
qed simp_all

termination statement
  by (rule statement_total)

declare statement.simps [simp del] statements_until.simps [simp del]

lemma statement_outcome:
  assumes R: "closed R" and p: "R p0 p"
  shows "outcome R p0 (statement p)"
proof (cases "starts_statement p")
  case True
  with statement_partial(1) [OF R spec [OF statement_total], of p]
  have "outcome R (nextToken p) (statement p)" by simp
  from outcome_start [OF R closed_nextToken [OF R p] this] show ?thesis .
next
  case False
  with statement_partial(1) [OF R spec [OF statement_total], of p] show ?thesis
    by (simp add: outcome_abort p)
qed

lemma statements_until_outcome:
  assumes R: "closed R" and p: "R p0 p"
  shows "outcome R p0 (statements_until k p)"
  by (rule outcome_start [OF R p statement_partial(2) [OF R spec [OF statement_total]]])

section \<open>Programs\<close>

text \<open>
  The loop at the end of \<^verbatim>\<open>program\<close>, over the labels that were jumped to: it fails at the
  first label that was never declared.
\<close>

fun check_labels :: "string list \<Rightarrow> Parser \<Rightarrow> result" where
  "check_labels [] p = Inr p"
| "check_labels (label # labels) p =
     (if label \<notin> labelsDeclared p then abort (UndeclaredLabel label) p
      else check_labels labels p)"

text \<open>\<^verbatim>\<open>program ::= {statement}\<close>\<close>

definition program :: "Parser \<Rightarrow> result" where
  "program p =
     and_then
       (statements_until EOF
         (skip_newlines (headerLine ''int main(void) {'' (headerLine ''#include <stdio.h>'' p))))
       (\<lambda>p. check_labels (labelsGotoed p) (emitLine ''}'' (emitLine ''return 0;'' p)))"

text \<open>The equations by which a run of the parser on a given token stream is evaluated.\<close>

lemmas run_simps =
  program_def Parser_init_def Emitter_init_def Token_init_def getToken_def nextToken_def
  checkToken_def isComparisonOperator_def match_def abort_def
  emit_def emitLine_def headerLine_def Emitter_emit_def Emitter_emitLine_def Emitter_headerLine_def
  primary_def unary_def term'_def expression_def comparison_def nl_def add_def Let_def
  term_loop.simps expression_loop.simps comparison_loop.simps skip_newlines.simps
  statement.simps statements_until.simps

text \<open>
  C1. The program that assigns \<^verbatim>\<open>3 + 4 * 2\<close> to \<^verbatim>\<open>x\<close> and then prints \<^verbatim>\<open>x\<close>, each statement
  followed by a newline, compiles: the header holds the two lines of the prologue and the
  declaration \<^verbatim>\<open>float x;\<close>, and the body holds the assignment, whose right-hand side is the
  text of the tokens \<^verbatim>\<open>3 + 4 * 2\<close> in the order of the source, then the call that prints
  \<^verbatim>\<open>x\<close> as a floating-point number, then the epilogue.
\<close>

theorem assignment_then_print:
  "program (Parser_init
     [Token_init ''NOCAP'' NOCAP, Token_init ''x'' IDENT, Token_init ''='' EQ,
      Token_init ''3'' NUMBER, Token_init ''+'' PLUS, Token_init ''4'' NUMBER,
      Token_init ''*'' ASTERISK, Token_init ''2'' NUMBER, Token_init ''\<newline>'' NEWLINE,
      Token_init ''YAP'' YAP, Token_init ''x'' IDENT, Token_init ''\<newline>'' NEWLINE,
      Token_init [] EOF] Emitter_init)
   = Inr \<lparr>lexer = [],
       emitter =
         \<lparr>header = ''#include <stdio.h>\<newline>int main(void) {\<newline>float x;\<newline>'',
          code = ''x = 3+4*2;\<newline>printf(\"%.2f'' @ [CHR 0x5C] @ ''n\", (float)(x));\<newline>''
                   @ ''return 0;\<newline>}\<newline>''\<rparr>,
       symbols = {''x''}, labelsDeclared = {}, labelsGotoed = [],
       curToken = Token_init [] EOF, peekToken = Token_init [] EOF\<rparr>"
  by (simp add: run_simps)

text \<open>
  C3. A jump statement emits the keyword and the label with nothing between them: the
  program that declares the label \<^verbatim>\<open>foo\<close> and then jumps to it compiles to a body with
  the line \<^verbatim>\<open>gotofoo;\<close>.
\<close>

theorem goto_emits_no_separator:
  "program (Parser_init
     [Token_init ''LABEL'' LABEL, Token_init ''foo'' IDENT, Token_init ''\<newline>'' NEWLINE,
      Token_init ''GOTO'' GOTO, Token_init ''foo'' IDENT, Token_init ''\<newline>'' NEWLINE,
      Token_init [] EOF] Emitter_init)
   = Inr \<lparr>lexer = [],
       emitter =
         \<lparr>header = ''#include <stdio.h>\<newline>int main(void) {\<newline>'',
          code = ''foo:\<newline>gotofoo;\<newline>return 0;\<newline>}\<newline>''\<rparr>,
       symbols = {}, labelsDeclared = {''foo''}, labelsGotoed = [''foo''],
       curToken = Token_init [] EOF, peekToken = Token_init [] EOF\<rparr>"
  by (simp add: run_simps)

lemma nextToken_Parser_init: "nextToken (Parser_init (t # ts) em) = Parser_init ts em"
  by (simp add: nextToken_def Parser_init_def getToken_def Token_init_def split: list.split)

lemma headerLine_Parser_init:
  "headerLine c (Parser_init ts em) = Parser_init ts (Emitter_headerLine c em)"
  by (simp add: headerLine_def Parser_init_def getToken_def Token_init_def split: list.split)

lemma emitLine_Parser_init:
  "emitLine c (Parser_init ts em) = Parser_init ts (Emitter_emitLine c em)"
  by (simp add: emitLine_def Parser_init_def getToken_def Token_init_def split: list.split)

lemma skip_newlines_Parser_init:
  "kind t \<noteq> NEWLINE \<Longrightarrow>
   skip_newlines (Parser_init (map (\<lambda>x. Token_init x NEWLINE) ns @ t # ts) em)
     = Parser_init (t # ts) em"
proof (induction ns)
  case Nil
  then show ?case
    by (subst skip_newlines.simps) (simp add: checkToken_def Parser_init_def getToken_def Token_init_def split: list.split)
next
  case (Cons n ns)
  have "checkToken NEWLINE (Parser_init (map (\<lambda>x. Token_init x NEWLINE) (n # ns) @ t # ts) em)"
    by (simp add: checkToken_def Parser_init_def getToken_def Token_init_def split: list.split)
  then show ?case
    using Cons by (subst skip_newlines.simps) (simp add: nextToken_Parser_init)
qed

text \<open>
  C7. A token stream of newline tokens only, then end-of-file, compiles: the header is the
  prologue, that is the include line and the line that opens the entry routine, and the
  body is the return statement and the closing brace.
\<close>

theorem blank_program:
  "program (Parser_init (map (\<lambda>x. Token_init x NEWLINE) ns @ [Token_init e EOF]) Emitter_init)
   = Inr (Parser_init [Token_init e EOF]
       \<lparr>header = ''#include <stdio.h>\<newline>int main(void) {\<newline>'',
        code = ''return 0;\<newline>}\<newline>''\<rparr>)"
proof -
  let ?eof = "Token_init e EOF"
  let ?em = "Emitter_headerLine ''int main(void) {'' (Emitter_headerLine ''#include <stdio.h>'' Emitter_init)"
  have k: "kind ?eof \<noteq> NEWLINE" by (simp add: Token_init_def)
  have c: "checkToken EOF (Parser_init [?eof] ?em)"
    by (simp add: checkToken_def Parser_init_def getToken_def Token_init_def)
  have "statements_until EOF (Parser_init [?eof] ?em) = Inr (Parser_init [?eof] ?em)"
    using c by (subst statements_until.simps) simp
  moreover have "labelsGotoed (Parser_init [?eof] ?em) = []"
    by (simp add: Parser_init_def getToken_def)
  ultimately show ?thesis
    by (simp add: program_def headerLine_Parser_init skip_newlines_Parser_init [OF k]
        emitLine_Parser_init Emitter_headerLine_def Emitter_emitLine_def Emitter_init_def)
qed

section \<open>The fields that the steps leave alone\<close>

lemma nextToken_fields [simp]:
  "curToken (nextToken p) = peekToken p"
  "emitter (nextToken p) = emitter p"
  "symbols (nextToken p) = symbols p"
  "labelsDeclared (nextToken p) = labelsDeclared p"
  "labelsGotoed (nextToken p) = labelsGotoed p"
  by (simp_all add: nextToken_def split_def Let_def)

lemma emit_fields [simp]:
  "symbols (emit c p) = symbols p"
  "labelsDeclared (emit c p) = labelsDeclared p"
  "labelsGotoed (emit c p) = labelsGotoed p"
  "symbols (emitLine c p) = symbols p"
  "labelsDeclared (emitLine c p) = labelsDeclared p"
  "labelsGotoed (emitLine c p) = labelsGotoed p"
  "symbols (headerLine c p) = symbols p"
  "labelsDeclared (headerLine c p) = labelsDeclared p"
  "labelsGotoed (headerLine c p) = labelsGotoed p"
  by (simp_all add: emit_def emitLine_def headerLine_def)

lemma emitted [simp]:
  "code (emitter (emit c p)) = code (emitter p) @ c"
  "header (emitter (emit c p)) = header (emitter p)"
  "code (emitter (emitLine c p)) = code (emitter p) @ c @ ''\<newline>''"
  "header (emitter (emitLine c p)) = header (emitter p)"
  "code (emitter (headerLine c p)) = code (emitter p)"
  "header (emitter (headerLine c p)) = header (emitter p) @ c @ ''\<newline>''"
  by (simp_all add: emit_def emitLine_def headerLine_def Emitter_emit_def Emitter_emitLine_def
      Emitter_headerLine_def)

lemma skip_newlines_fields:
  "emitter (skip_newlines p) = emitter p \<and> symbols (skip_newlines p) = symbols p
   \<and> labelsDeclared (skip_newlines p) = labelsDeclared p
   \<and> labelsGotoed (skip_newlines p) = labelsGotoed p"
proof (induction p rule: skip_newlines.induct)
  case (1 p)
  then show ?case
    by (subst (1 2 3 4) skip_newlines.simps) simp
qed

lemma nl_fields:
  assumes "nl p = Inr q"
  shows "emitter q = emitter p \<and> symbols q = symbols p
    \<and> labelsDeclared q = labelsDeclared p \<and> labelsGotoed q = labelsGotoed p"
proof -
  from assms have "q = skip_newlines (nextToken p)"
    by (auto simp: nl_def match_def abort_def split: if_splits)
  then show ?thesis
    using skip_newlines_fields [of "nextToken p"] by simp
qed

section \<open>Identifiers in expressions\<close>

text \<open>
  C4. When the current token is an identifier, \<^verbatim>\<open>primary\<close> acts on whether its text is in
  the symbol set. If it is not, the run ends there with the error of a variable referenced
  before assignment, in the very state in which \<^verbatim>\<open>primary\<close> was entered, so nothing is
  emitted for the identifier and the parser never returns to a caller that could write
  output; the productions \<^verbatim>\<open>unary\<close>, \<^verbatim>\<open>term\<close>, \<^verbatim>\<open>expression\<close> and \<^verbatim>\<open>comparison\<close>, entered at that
  token, end in the same way. If it is, the text is emitted as it stands and the cursor
  moves on.
\<close>

theorem identifier_needs_symbol:
  assumes "checkToken IDENT p"
  shows "(text' (curToken p) \<notin> symbols p \<longrightarrow>
            primary p = Inl (ReferencingBeforeAssignment (text' (curToken p)), p)
          \<and> unary p = Inl (ReferencingBeforeAssignment (text' (curToken p)), p)
          \<and> term' p = Inl (ReferencingBeforeAssignment (text' (curToken p)), p)
          \<and> expression p = Inl (ReferencingBeforeAssignment (text' (curToken p)), p)
          \<and> comparison p = Inl (ReferencingBeforeAssignment (text' (curToken p)), p)
          \<and> message (ReferencingBeforeAssignment (text' (curToken p)))
              = ''[Error] Referencing variable before assignment: '' @ text' (curToken p))
       \<and> (text' (curToken p) \<in> symbols p \<longrightarrow>
            primary p = Inr (nextToken (emit (text' (curToken p)) p))
          \<and> code (emitter (nextToken (emit (text' (curToken p)) p)))
              = code (emitter p) @ text' (curToken p))"
proof -
  from assms have k: "kind (curToken p) = IDENT" by (simp add: checkToken_def)
  show ?thesis
    by (simp add: primary_def unary_def term'_def expression_def comparison_def abort_def
        checkToken_def k)
qed

theorem identifier_needs_symbol_witness:
  "primary (Parser_init [Token_init ''x'' IDENT] Emitter_init)
     = Inl (ReferencingBeforeAssignment ''x'', Parser_init [Token_init ''x'' IDENT] Emitter_init)
   \<and> primary ((Parser_init [Token_init ''x'' IDENT] Emitter_init)\<lparr>symbols := {''x''}\<rparr>)
     = Inr \<lparr>lexer = [], emitter = \<lparr>header = [], code = ''x''\<rparr>, symbols = {''x''},
         labelsDeclared = {}, labelsGotoed = [],
         curToken = Token_init [] EOF, peekToken = Token_init [] EOF\<rparr>"
  using identifier_needs_symbol [of "Parser_init [Token_init ''x'' IDENT] Emitter_init"]
    identifier_needs_symbol [of "(Parser_init [Token_init ''x'' IDENT] Emitter_init)\<lparr>symbols := {''x''}\<rparr>"]
  by (simp add: run_simps)

section \<open>Labels and jumps\<close>

text \<open>The equations by which the cursor and the emitter are evaluated on a given state.\<close>

lemmas cursor_simps =
  Parser_init_def Emitter_init_def Token_init_def getToken_def nextToken_def
  checkToken_def checkPeek_def match_def abort_def nl_def skip_newlines.simps
  emit_def emitLine_def headerLine_def Emitter_emit_def Emitter_emitLine_def Emitter_headerLine_def
  add_def Let_def

text \<open>
  C5. A label declaration looks at the text of the token after the keyword. If that text is
  already a declared label, the run ends with the error of a label that exists already,
  and the set of declared labels is, at that moment, what it was before the statement. If
  the text is new and the token is an identifier, the statement goes on to the newline
  with the text added to the declared labels and the line of the label marker, the text and
  a colon, added to the body; so a statement that returns has done exactly that.
\<close>

theorem label_declaration:
  assumes "checkToken LABEL p"
  shows "(text' (peekToken p) \<in> labelsDeclared p \<longrightarrow>
            statement p = Inl (LabelExists (text' (peekToken p)), nextToken p)
          \<and> labelsDeclared (nextToken p) = labelsDeclared p
          \<and> message (LabelExists (text' (peekToken p)))
              = ''[Error] Label already exists: '' @ text' (peekToken p))
       \<and> (text' (peekToken p) \<notin> labelsDeclared p \<longrightarrow> checkPeek IDENT p \<longrightarrow>
            statement p =
              nl (nextToken (emitLine (text' (peekToken p) @ '':'')
                    (nextToken p\<lparr>labelsDeclared := insert (text' (peekToken p)) (labelsDeclared p)\<rparr>)))
          \<and> (\<forall>q. statement p = Inr q \<longrightarrow>
                labelsDeclared q = insert (text' (peekToken p)) (labelsDeclared p)
              \<and> code (emitter q) = code (emitter p) @ text' (peekToken p) @ '':\<newline>''))"
proof -
  from assms have k: "kind (curToken p) = LABEL" by (simp add: checkToken_def)
  have dup: "statement p = Inl (LabelExists (text' (peekToken p)), nextToken p)"
    if "text' (peekToken p) \<in> labelsDeclared p"
    using that by (subst statement.simps) (simp add: checkToken_def k Let_def abort_def)
  have fresh: "statement p =
      nl (nextToken (emitLine (text' (peekToken p) @ '':'')
            (nextToken p\<lparr>labelsDeclared := insert (text' (peekToken p)) (labelsDeclared p)\<rparr>)))"
    if "text' (peekToken p) \<notin> labelsDeclared p" "checkPeek IDENT p"
    using that
    by (subst statement.simps)
      (simp add: checkToken_def checkPeek_def k Let_def match_def emitLine_def)
  have eff: "labelsDeclared q = insert (text' (peekToken p)) (labelsDeclared p)
      \<and> code (emitter q) = code (emitter p) @ text' (peekToken p) @ '':\<newline>''"
    if "text' (peekToken p) \<notin> labelsDeclared p" "checkPeek IDENT p" "statement p = Inr q" for q
  proof -
    from that(3) fresh [OF that(1,2)]
    have "nl (nextToken (emitLine (text' (peekToken p) @ '':'')
        (nextToken p\<lparr>labelsDeclared := insert (text' (peekToken p)) (labelsDeclared p)\<rparr>))) = Inr q"
      by simp
    from nl_fields [OF this] show ?thesis
      by (simp add: emitLine_def Emitter_emitLine_def)
  qed
  show ?thesis
  proof (intro conjI impI allI)
    assume "text' (peekToken p) \<in> labelsDeclared p"
    then show "statement p = Inl (LabelExists (text' (peekToken p)), nextToken p)"
      by (rule dup)
  next
    show "labelsDeclared (nextToken p) = labelsDeclared p" by simp
  next
    show "message (LabelExists (text' (peekToken p)))
      = ''[Error] Label already exists: '' @ text' (peekToken p)" by simp
  next
    assume "text' (peekToken p) \<notin> labelsDeclared p" "checkPeek IDENT p"
    then show "statement p =
      nl (nextToken (emitLine (text' (peekToken p) @ '':'')
            (nextToken p\<lparr>labelsDeclared := insert (text' (peekToken p)) (labelsDeclared p)\<rparr>)))"
      by (rule fresh)
  next
    fix q
    assume "text' (peekToken p) \<notin> labelsDeclared p" "checkPeek IDENT p" "statement p = Inr q"
    from eff [OF this]
    show "labelsDeclared q = insert (text' (peekToken p)) (labelsDeclared p)"
      and "code (emitter q) = code (emitter p) @ text' (peekToken p) @ '':\<newline>''"
      by simp_all
  qed
qed

theorem label_declaration_witness:
  "statement ((Parser_init [Token_init ''LABEL'' LABEL, Token_init ''a'' IDENT,
        Token_init ''\<newline>'' NEWLINE] Emitter_init)\<lparr>labelsDeclared := {''a''}\<rparr>)
     = Inl (LabelExists ''a'',
         \<lparr>lexer = [], emitter = Emitter_init, symbols = {}, labelsDeclared = {''a''},
          labelsGotoed = [], curToken = Token_init ''a'' IDENT,
          peekToken = Token_init ''\<newline>'' NEWLINE\<rparr>)
   \<and> statement (Parser_init [Token_init ''LABEL'' LABEL, Token_init ''a'' IDENT,
        Token_init ''\<newline>'' NEWLINE] Emitter_init)
     = Inr \<lparr>lexer = [], emitter = \<lparr>header = [], code = ''a:\<newline>''\<rparr>, symbols = {},
         labelsDeclared = {''a''}, labelsGotoed = [],
         curToken = Token_init [] EOF, peekToken = Token_init [] EOF\<rparr>"
proof -
  let ?p = "Parser_init [Token_init ''LABEL'' LABEL, Token_init ''a'' IDENT,
        Token_init ''\<newline>'' NEWLINE] Emitter_init"
  have 1: "checkToken LABEL (?p\<lparr>labelsDeclared := {''a''}\<rparr>)"
    and 2: "checkToken LABEL ?p"
    by (simp_all add: cursor_simps)
  from label_declaration [OF 1] label_declaration [OF 2] show ?thesis
    by (simp add: cursor_simps)
qed

text \<open>
  C10. When the token after \<^verbatim>\<open>GOTO\<close> is not an identifier, the statement ends with the syntax
  error of \<^verbatim>\<open>match\<close>, and the state at that moment already has the text of the token among
  the jump targets and the jump fragment in the body. When the token after \<^verbatim>\<open>LABEL\<close> is not
  an identifier, its text is first checked against the declared labels: a text that is
  there ends the statement with the error of a label that exists already; a text that is
  not there is added to the declared labels, the label marker is added to the body, and
  only then does the statement end with the syntax error of \<^verbatim>\<open>match\<close>.
\<close>

theorem state_changed_before_identifier_is_checked:
  assumes "\<not> checkPeek IDENT p"
  shows "(checkToken GOTO p \<longrightarrow>
           (\<exists>q. statement p = Inl (Expected IDENT (kind (peekToken p)), q)
              \<and> labelsGotoed q = add (text' (peekToken p)) (labelsGotoed p)
              \<and> text' (peekToken p) \<in> set (labelsGotoed q)
              \<and> code (emitter q) = code (emitter p) @ ''goto'' @ text' (peekToken p) @ '';\<newline>''))
       \<and> (checkToken LABEL p \<longrightarrow> text' (peekToken p) \<notin> labelsDeclared p \<longrightarrow>
           (\<exists>q. statement p = Inl (Expected IDENT (kind (peekToken p)), q)
              \<and> labelsDeclared q = insert (text' (peekToken p)) (labelsDeclared p)
              \<and> code (emitter q) = code (emitter p) @ text' (peekToken p) @ '':\<newline>''))
       \<and> (checkToken LABEL p \<longrightarrow> text' (peekToken p) \<in> labelsDeclared p \<longrightarrow>
           statement p = Inl (LabelExists (text' (peekToken p)), nextToken p))"
proof (intro conjI impI)
  assume "checkToken GOTO p"
  then have k: "kind (curToken p) = GOTO" by (simp add: checkToken_def)
  have "statement p = Inl (Expected IDENT (kind (peekToken p)),
      emitLine (''goto'' @ text' (peekToken p) @ '';'')
        (nextToken p\<lparr>labelsGotoed := add (text' (peekToken p)) (labelsGotoed p)\<rparr>))"
    using assms
    by (subst statement.simps)
      (simp add: checkToken_def checkPeek_def k Let_def match_def abort_def emitLine_def)
  then show "\<exists>q. statement p = Inl (Expected IDENT (kind (peekToken p)), q)
      \<and> labelsGotoed q = add (text' (peekToken p)) (labelsGotoed p)
      \<and> text' (peekToken p) \<in> set (labelsGotoed q)
      \<and> code (emitter q) = code (emitter p) @ ''goto'' @ text' (peekToken p) @ '';\<newline>''"
    by (simp add: add_def emitLine_def Emitter_emitLine_def)
next
  assume "checkToken LABEL p" and f: "text' (peekToken p) \<notin> labelsDeclared p"
  then have k: "kind (curToken p) = LABEL" by (simp add: checkToken_def)
  have "statement p = Inl (Expected IDENT (kind (peekToken p)),
      emitLine (text' (peekToken p) @ '':'')
        (nextToken p\<lparr>labelsDeclared := insert (text' (peekToken p)) (labelsDeclared p)\<rparr>))"
    using assms f
    by (subst statement.simps)
      (simp add: checkToken_def checkPeek_def k Let_def match_def abort_def emitLine_def)
  then show "\<exists>q. statement p = Inl (Expected IDENT (kind (peekToken p)), q)
      \<and> labelsDeclared q = insert (text' (peekToken p)) (labelsDeclared p)
      \<and> code (emitter q) = code (emitter p) @ text' (peekToken p) @ '':\<newline>''"
    by (simp add: emitLine_def Emitter_emitLine_def)
next
  assume "checkToken LABEL p" and d: "text' (peekToken p) \<in> labelsDeclared p"
  then have k: "kind (curToken p) = LABEL" by (simp add: checkToken_def)
  show "statement p = Inl (LabelExists (text' (peekToken p)), nextToken p)"
    using d by (subst statement.simps) (simp add: checkToken_def k Let_def abort_def)
qed

theorem state_changed_before_identifier_is_checked_witness:
  "(\<exists>q. statement (Parser_init [Token_init ''GOTO'' GOTO, Token_init ''7'' NUMBER] Emitter_init)
          = Inl (Expected IDENT NUMBER, q)
        \<and> labelsGotoed q = [''7''] \<and> code (emitter q) = ''goto7;\<newline>'')
   \<and> (\<exists>q. statement (Parser_init [Token_init ''LABEL'' LABEL, Token_init ''7'' NUMBER] Emitter_init)
          = Inl (Expected IDENT NUMBER, q)
        \<and> labelsDeclared q = {''7''} \<and> code (emitter q) = ''7:\<newline>'')
   \<and> statement ((Parser_init [Token_init ''LABEL'' LABEL, Token_init ''7'' NUMBER]
         Emitter_init)\<lparr>labelsDeclared := {''7''}\<rparr>)
     = Inl (LabelExists ''7'',
         \<lparr>lexer = [], emitter = Emitter_init, symbols = {},
          labelsDeclared = {''7''}, labelsGotoed = [],
          curToken = Token_init ''7'' NUMBER, peekToken = Token_init [] EOF\<rparr>)"
proof -
  let ?g = "Parser_init [Token_init ''GOTO'' GOTO, Token_init ''7'' NUMBER] Emitter_init"
  let ?l = "Parser_init [Token_init ''LABEL'' LABEL, Token_init ''7'' NUMBER] Emitter_init"
  have 1: "\<not> checkPeek IDENT ?g" and 2: "\<not> checkPeek IDENT ?l"
    and 3: "\<not> checkPeek IDENT (?l\<lparr>labelsDeclared := {''7''}\<rparr>)"
    by (simp_all add: cursor_simps)
  from state_changed_before_identifier_is_checked [OF 1]
    state_changed_before_identifier_is_checked [OF 2]
    state_changed_before_identifier_is_checked [OF 3]
  show ?thesis
    by (auto simp: cursor_simps)
qed

section \<open>Comparisons and conditionals\<close>

text \<open>
  C6. A comparison needs an operator: when the first expression has been read and the
  current token is not a comparison operator, the run ends with the error that a
  comparison operator was expected, naming that token. And a chain is read as it stands:
  with the identifiers \<open>a\<close>, \<open>b\<close> and \<open>c\<close> in the symbol set, the tokens \<^verbatim>\<open>a < b == c\<close>, followed
  by a token that is no operator, are a comparison, and what it adds to the body is the
  text of the five tokens in the order of the source and nothing else.
\<close>

theorem comparison_needs_operator:
  "(expression p = Inr q \<longrightarrow> \<not> isComparisonOperator q \<longrightarrow>
      comparison p = Inl (ExpectedComparison (text' (curToken q)), q)
    \<and> message (ExpectedComparison (text' (curToken q)))
        = ''[Error] Expected comparison operator at: '' @ text' (curToken q))
   \<and> (a \<in> S \<longrightarrow> b \<in> S \<longrightarrow> c \<in> S \<longrightarrow>
      kind t \<notin> {PLUS, MINUS, ASTERISK, SLASH, GT, GTEQ, LT, LTEQ, EQEQ, NOTEQ} \<longrightarrow>
      comparison
        \<lparr>lexer = Token_init b IDENT # Token_init o2 EQEQ # Token_init c IDENT # t # u # ts,
         emitter = em, symbols = S, labelsDeclared = D, labelsGotoed = G,
         curToken = Token_init a IDENT, peekToken = Token_init o1 LT\<rparr>
      = Inr \<lparr>lexer = ts, emitter = em\<lparr>code := code em @ a @ o1 @ b @ o2 @ c\<rparr>,
          symbols = S, labelsDeclared = D, labelsGotoed = G, curToken = t, peekToken = u\<rparr>)"
proof (intro conjI impI)
  assume "expression p = Inr q" "\<not> isComparisonOperator q"
  then show "comparison p = Inl (ExpectedComparison (text' (curToken q)), q)"
    by (simp add: comparison_def abort_def)
next
  show "message (ExpectedComparison (text' (curToken q)))
    = ''[Error] Expected comparison operator at: '' @ text' (curToken q)"
    by simp
next
  assume S: "a \<in> S" "b \<in> S" "c \<in> S"
    and t: "kind t \<notin> {PLUS, MINUS, ASTERISK, SLASH, GT, GTEQ, LT, LTEQ, EQEQ, NOTEQ}"
  from t have k: "PLUS \<noteq> kind t" "MINUS \<noteq> kind t" "ASTERISK \<noteq> kind t" "SLASH \<noteq> kind t"
    "GT \<noteq> kind t" "GTEQ \<noteq> kind t" "LT \<noteq> kind t" "LTEQ \<noteq> kind t" "EQEQ \<noteq> kind t"
    "NOTEQ \<noteq> kind t"
    by auto
  from S show "comparison
      \<lparr>lexer = Token_init b IDENT # Token_init o2 EQEQ # Token_init c IDENT # t # u # ts,
       emitter = em, symbols = S, labelsDeclared = D, labelsGotoed = G,
       curToken = Token_init a IDENT, peekToken = Token_init o1 LT\<rparr>
    = Inr \<lparr>lexer = ts, emitter = em\<lparr>code := code em @ a @ o1 @ b @ o2 @ c\<rparr>,
        symbols = S, labelsDeclared = D, labelsGotoed = G, curToken = t, peekToken = u\<rparr>"
    by (simp add: comparison_def expression_def term'_def unary_def primary_def
        comparison_loop.simps expression_loop.simps term_loop.simps
        isComparisonOperator_def checkToken_def nextToken_def getToken_def Token_init_def
        emit_def Emitter_emit_def k split del: if_split)
qed

theorem comparison_needs_operator_witness:
  "comparison (Parser_init [Token_init ''1'' NUMBER, Token_init ''THEN'' THEN] Emitter_init)
     = Inl (ExpectedComparison ''THEN'',
         \<lparr>lexer = [], emitter = \<lparr>header = [], code = ''1''\<rparr>, symbols = {},
          labelsDeclared = {}, labelsGotoed = [],
          curToken = Token_init ''THEN'' THEN, peekToken = Token_init [] EOF\<rparr>)
   \<and> comparison
       \<lparr>lexer = [Token_init ''b'' IDENT, Token_init ''=='' EQEQ, Token_init ''c'' IDENT,
                 Token_init ''THEN'' THEN, Token_init ''\<newline>'' NEWLINE],
        emitter = \<lparr>header = [], code = ''if(''\<rparr>, symbols = {''a'', ''b'', ''c''},
        labelsDeclared = {}, labelsGotoed = [],
        curToken = Token_init ''a'' IDENT, peekToken = Token_init ''<'' LT\<rparr>
     = Inr \<lparr>lexer = [], emitter = \<lparr>header = [], code = ''if(a<b==c''\<rparr>,
         symbols = {''a'', ''b'', ''c''}, labelsDeclared = {}, labelsGotoed = [],
         curToken = Token_init ''THEN'' THEN, peekToken = Token_init ''\<newline>'' NEWLINE\<rparr>"
proof -
  let ?p = "Parser_init [Token_init ''1'' NUMBER, Token_init ''THEN'' THEN] Emitter_init"
  let ?q = "\<lparr>lexer = [], emitter = \<lparr>header = [], code = ''1''\<rparr>, symbols = {},
          labelsDeclared = {}, labelsGotoed = [],
          curToken = Token_init ''THEN'' THEN, peekToken = Token_init [] EOF\<rparr>"
  have e: "expression ?p = Inr ?q"
    by (simp add: expression_def term'_def unary_def primary_def expression_loop.simps
        term_loop.simps cursor_simps)
  have n: "\<not> isComparisonOperator ?q"
    by (simp add: isComparisonOperator_def cursor_simps)
  from e n
    comparison_needs_operator [where p = ?p and q = ?q and a = "''a''" and b = "''b''"
      and c = "''c''" and S = "{''a'', ''b'', ''c''}" and t = "Token_init ''THEN'' THEN"
      and ?o1.0 = "''<''" and ?o2.0 = "''==''" and u = "Token_init ''\<newline>'' NEWLINE" and ts = "[]"
      and em = "\<lparr>header = [], code = ''if(''\<rparr>" and D = "{}" and G = "[]"]
  show ?thesis
    by (simp add: Token_init_def)
qed

text \<open>The productions only ever add to the end of the body.\<close>

definition appends_code :: "Parser \<Rightarrow> Parser \<Rightarrow> bool" where
  "appends_code p q \<longleftrightarrow> (\<exists>s. code (emitter q) = code (emitter p) @ s)"

lemma closed_appends_code: "closed appends_code"
  unfolding closed_def steady_def appends_code_def
  by (intro conjI allI impI) (auto simp: emit_def emitLine_def headerLine_def Emitter_emit_def
      Emitter_emitLine_def Emitter_headerLine_def)

text \<open>
  C8. A conditional whose end marker follows at once after the condition, \<^verbatim>\<open>THEN\<close> and the
  newlines, and which is followed by a newline, is a statement: it returns, and what it
  adds to the body is the opener \<^verbatim>\<open>if(\<close>, then what the comparison emits, then the line
  that opens the block, then the line that closes it, with nothing between the two.
\<close>

theorem conditional_with_empty_body:
  assumes "checkToken IF p"
    and "comparison (emit ''if('' (nextToken p)) = Inr p1"
    and "checkToken THEN p1"
    and "nl (nextToken p1) = Inr p2"
    and "checkToken ENDIF p2"
    and "checkToken NEWLINE (nextToken p2)"
  shows "\<exists>q s. statement p = Inr q
      \<and> code (emitter p1) = code (emitter p) @ ''if('' @ s
      \<and> code (emitter q) = code (emitter p) @ ''if('' @ s @ '') {\<newline>}\<newline>''"
proof -
  from assms(1) have k: "kind (curToken p) = IF" by (simp add: checkToken_def)
  let ?q = "skip_newlines (nextToken (emitLine ''}'' (nextToken (emitLine '') {'' p2))))"
  from assms(5) have b: "statements_until ENDIF (emitLine '') {'' p2) = Inr (emitLine '') {'' p2)"
    by (subst statements_until.simps) simp
  have m: "match THEN p1 = Inr (nextToken p1)"
    using assms(3) by (simp add: match_def)
  have e: "match ENDIF (emitLine '') {'' p2) = Inr (nextToken (emitLine '') {'' p2))"
    using assms(5) by (simp add: match_def)
  have n: "nl (emitLine ''}'' (nextToken (emitLine '') {'' p2))) = Inr ?q"
    using assms(6) by (simp add: nl_def match_def checkToken_def emitLine_def nextToken_def Let_def split_def)
  have s: "statement p = Inr ?q"
    by (subst statement.simps) (simp add: checkToken_def k assms(2,4) m b e n)
  from outcome_InrD [OF comparison_outcome [OF closed_steady [OF closed_appends_code]] assms(2),
      of "emit ''if('' (nextToken p)"]
  obtain s where c: "code (emitter p1) = code (emitter p) @ ''if('' @ s"
    by (auto simp: appends_code_def)
  from nl_fields [OF assms(4)] have "emitter p2 = emitter p1" by simp
  with c have "code (emitter ?q) = code (emitter p) @ ''if('' @ s @ '') {\<newline>}\<newline>''"
    using skip_newlines_fields [of "nextToken (emitLine ''}'' (nextToken (emitLine '') {'' p2)))"]
    by simp
  with s c show ?thesis by blast
qed

theorem conditional_with_empty_body_witness:
  "\<exists>q. statement
         (Parser_init
           [Token_init ''IF'' IF, Token_init ''1'' NUMBER, Token_init ''<'' LT,
            Token_init ''2'' NUMBER, Token_init ''THEN'' THEN, Token_init ''\<newline>'' NEWLINE,
            Token_init ''ENDIF'' ENDIF, Token_init ''\<newline>'' NEWLINE] Emitter_init) = Inr q
       \<and> code (emitter q) = ''if(1<2) {\<newline>}\<newline>''"
proof -
  let ?p = "Parser_init
           [Token_init ''IF'' IF, Token_init ''1'' NUMBER, Token_init ''<'' LT,
            Token_init ''2'' NUMBER, Token_init ''THEN'' THEN, Token_init ''\<newline>'' NEWLINE,
            Token_init ''ENDIF'' ENDIF, Token_init ''\<newline>'' NEWLINE] Emitter_init"
  let ?p1 = "\<lparr>lexer = [Token_init ''ENDIF'' ENDIF, Token_init ''\<newline>'' NEWLINE],
      emitter = \<lparr>header = [], code = ''if(1<2''\<rparr>, symbols = {}, labelsDeclared = {},
      labelsGotoed = [], curToken = Token_init ''THEN'' THEN,
      peekToken = Token_init ''\<newline>'' NEWLINE\<rparr>"
  let ?p2 = "\<lparr>lexer = [], emitter = \<lparr>header = [], code = ''if(1<2''\<rparr>, symbols = {},
      labelsDeclared = {}, labelsGotoed = [], curToken = Token_init ''ENDIF'' ENDIF,
      peekToken = Token_init ''\<newline>'' NEWLINE\<rparr>"
  have 1: "checkToken IF ?p"
    by (simp add: cursor_simps)
  have 2: "comparison (emit ''if('' (nextToken ?p)) = Inr ?p1"
    by (simp add: comparison_def expression_def term'_def unary_def primary_def
        comparison_loop.simps expression_loop.simps term_loop.simps isComparisonOperator_def
        cursor_simps)
  have 3: "checkToken THEN ?p1"
    by (simp add: cursor_simps)
  have 4: "nl (nextToken ?p1) = Inr ?p2"
    by (simp add: cursor_simps)
  have 5: "checkToken ENDIF ?p2" and 6: "checkToken NEWLINE (nextToken ?p2)"
    by (simp_all add: cursor_simps)
  from conditional_with_empty_body [OF 1 2 3 4 5 6] show ?thesis
    by (auto simp: cursor_simps)
qed

section \<open>The symbol set and the declarations in the header\<close>

text \<open>The header line that declares the variable \<open>x\<close>, as it stands in the header region.\<close>

definition header_declaration :: "string \<Rightarrow> string" where
  "header_declaration x = ''float '' @ x @ '';\<newline>''"

text \<open>
  \<open>grows p q\<close>: from \<open>p\<close> to \<open>q\<close> no name has left the symbol set, and the header has grown
  by exactly one header_declaration for each name that has entered it.
\<close>

definition grows :: "Parser \<Rightarrow> Parser \<Rightarrow> bool" where
  "grows p q \<longleftrightarrow>
     symbols p \<subseteq> symbols q \<and>
     (\<exists>xs. distinct xs \<and> set xs = symbols q - symbols p \<and>
        header (emitter q) = header (emitter p) @ concat (map header_declaration xs))"

lemma grows_refl: "grows p p"
  unfolding grows_def by (auto intro: exI [of _ "[]"])

lemma grows_same:
  "symbols q = symbols p \<Longrightarrow> header (emitter q) = header (emitter p) \<Longrightarrow> grows p q"
  unfolding grows_def by (auto intro: exI [of _ "[]"])

lemma grows_trans:
  assumes "grows p q" and "grows q r"
  shows "grows p r"
proof -
  from assms(1) obtain xs where xs: "symbols p \<subseteq> symbols q" "distinct xs"
    "set xs = symbols q - symbols p"
    "header (emitter q) = header (emitter p) @ concat (map header_declaration xs)"
    unfolding grows_def by blast
  from assms(2) obtain ys where ys: "symbols q \<subseteq> symbols r" "distinct ys"
    "set ys = symbols r - symbols q"
    "header (emitter r) = header (emitter q) @ concat (map header_declaration ys)"
    unfolding grows_def by blast
  have "distinct (xs @ ys)" using xs(2,3) ys(2,3) by auto
  moreover have "set (xs @ ys) = symbols r - symbols p" using xs(1,3) ys(1,3) by auto
  moreover have "header (emitter r) = header (emitter p) @ concat (map header_declaration (xs @ ys))"
    using xs(4) ys(4) by simp
  ultimately show ?thesis
    unfolding grows_def using xs(1) ys(1) by blast
qed

lemma grows_new:
  assumes "x \<notin> symbols p"
  shows "grows p (headerLine (''float '' @ x @ '';'') (p\<lparr>symbols := insert x (symbols p)\<rparr>))"
proof -
  have "distinct [x]" by simp
  moreover have "set [x] = symbols (headerLine (''float '' @ x @ '';'')
      (p\<lparr>symbols := insert x (symbols p)\<rparr>)) - symbols p"
    using assms by auto
  moreover have "header (emitter (headerLine (''float '' @ x @ '';'')
      (p\<lparr>symbols := insert x (symbols p)\<rparr>))) = header (emitter p) @ concat (map header_declaration [x])"
    by (simp add: header_declaration_def)
  ultimately show ?thesis
    unfolding grows_def by (intro conjI exI [of _ "[x]"]) auto
qed

lemma closed_grows: "closed grows"
  unfolding closed_def steady_def
proof (intro conjI allI impI)
  fix p q r :: Parser assume "grows p q" "grows q r"
  then show "grows p r" by (rule grows_trans)
next
  fix p :: Parser assume "text' (curToken p) \<notin> symbols p"
  then show "grows p (headerLine (''float '' @ text' (curToken p) @ '';'')
      (p\<lparr>symbols := insert (text' (curToken p)) (symbols p)\<rparr>))"
    by (rule grows_new)
qed (simp_all add: grows_same)

section \<open>The final check of the labels\<close>

lemma check_labels_Inr:
  "check_labels ls p = Inr q \<longleftrightarrow> q = p \<and> set ls \<subseteq> labelsDeclared p"
  by (induction ls) (auto simp: abort_def)

lemma check_labels_Inl:
  "check_labels ls p = Inl (e, q) \<Longrightarrow>
   q = p \<and> (\<exists>l\<in>set ls. l \<notin> labelsDeclared p \<and> e = UndeclaredLabel l)"
  by (induction ls) (auto simp: abort_def split: if_splits)

lemma check_labels_fails:
  "\<exists>l\<in>set ls. l \<notin> labelsDeclared p \<Longrightarrow>
   \<exists>l\<in>set ls. l \<notin> labelsDeclared p \<and> check_labels ls p = Inl (UndeclaredLabel l, p)"
  by (induction ls) (auto simp: abort_def)

text \<open>
  How \<^verbatim>\<open>program\<close> ends: either one of its statements fails, or all of them are parsed, the
  epilogue is emitted, and the final check decides.
\<close>

lemma program_cases:
  assumes "program p = Inr q \<or> program p = Inl (e, q)"
  shows "statements_until EOF
        (skip_newlines (headerLine ''int main(void) {'' (headerLine ''#include <stdio.h>'' p)))
      = Inl (e, q) \<and> program p = Inl (e, q)
    \<or> (\<exists>p1. statements_until EOF
          (skip_newlines (headerLine ''int main(void) {'' (headerLine ''#include <stdio.h>'' p)))
        = Inr p1
      \<and> q = emitLine ''}'' (emitLine ''return 0;'' p1)
      \<and> (program p = Inr q \<and> set (labelsGotoed p1) \<subseteq> labelsDeclared p1
         \<or> program p = Inl (e, q)
           \<and> (\<exists>l\<in>set (labelsGotoed p1). l \<notin> labelsDeclared p1 \<and> e = UndeclaredLabel l)))"
proof (cases "statements_until EOF
        (skip_newlines (headerLine ''int main(void) {'' (headerLine ''#include <stdio.h>'' p)))")
  case (Inl a)
  with assms show ?thesis by (simp add: program_def)
next
  case (Inr p1)
  then have eq: "program p
      = check_labels (labelsGotoed p1) (emitLine ''}'' (emitLine ''return 0;'' p1))"
    by (simp add: program_def)
  from assms show ?thesis
  proof
    assume r: "program p = Inr q"
    with eq have "check_labels (labelsGotoed p1) (emitLine ''}'' (emitLine ''return 0;'' p1)) = Inr q"
      by simp
    then have "q = emitLine ''}'' (emitLine ''return 0;'' p1)"
      and "set (labelsGotoed p1) \<subseteq> labelsDeclared p1"
      by (simp_all add: check_labels_Inr)
    with Inr r show ?thesis by simp
  next
    assume l: "program p = Inl (e, q)"
    with eq have "check_labels (labelsGotoed p1) (emitLine ''}'' (emitLine ''return 0;'' p1)) = Inl (e, q)"
      by simp
    from check_labels_Inl [OF this]
    have "q = emitLine ''}'' (emitLine ''return 0;'' p1)"
      and "\<exists>l\<in>set (labelsGotoed p1). l \<notin> labelsDeclared p1 \<and> e = UndeclaredLabel l"
      by simp_all
    with Inr l show ?thesis by simp
  qed
qed

lemma program_grows:
  assumes "program p = Inr q \<or> program p = Inl (e, q)"
  shows "grows (headerLine ''int main(void) {'' (headerLine ''#include <stdio.h>'' p)) q"
proof -
  let ?p0 = "headerLine ''int main(void) {'' (headerLine ''#include <stdio.h>'' p)"
  note S = closed_steady [OF closed_grows]
  have "grows ?p0 (skip_newlines ?p0)"
    by (rule skip_newlines_closed [OF S grows_refl])
  then have o: "outcome grows ?p0 (statements_until EOF (skip_newlines ?p0))"
    by (rule statements_until_outcome [OF closed_grows])
  from program_cases [OF assms]
  consider (failed) "statements_until EOF (skip_newlines ?p0) = Inl (e, q)"
    | (parsed) p1 where "statements_until EOF (skip_newlines ?p0) = Inr p1"
        "q = emitLine ''}'' (emitLine ''return 0;'' p1)"
    by blast
  then show ?thesis
  proof cases
    case failed
    from outcome_InlD [OF o this] show ?thesis by simp
  next
    case parsed
    from outcome_InrD [OF o parsed(1)] have "grows ?p0 p1" .
    then show ?thesis
      unfolding parsed(2) by (intro steady_emitLine [OF S])
  qed
qed

text \<open>The relation that holds between two states with the same symbols and the same header.\<close>

definition same_declarations :: "Parser \<Rightarrow> Parser \<Rightarrow> bool" where
  "same_declarations p q \<longleftrightarrow>
     symbols q = symbols p \<and> header (emitter q) = header (emitter p)"

lemma steady_same_declarations: "steady same_declarations"
  by (simp add: steady_def same_declarations_def)

text \<open>
  C9. Across a statement, across a run of statements, and across a whole program, be the
  outcome a normal return or a failure, no name leaves the symbol set, and the header
  grows by exactly one declaration for each name that enters the set and by nothing else
  (in a program, after the two lines of the prologue). So, in the header of a
  program, each name of the symbol set is declared exactly once. An assignment or input
  statement that returns has added the name after its keyword to the symbol set and
  nothing else; it has added the declaration of that name to the header when the name
  was new, and nothing when the name was there already.
\<close>

theorem symbols_grow_and_are_declared_once:
  "(statement p = Inr q \<or> statement p = Inl (e, q)
      \<or> statements_until k p = Inr q \<or> statements_until k p = Inl (e, q) \<longrightarrow> grows p q)
   \<and> (program p = Inr q \<or> program p = Inl (e, q) \<longrightarrow>
        symbols p \<subseteq> symbols q
      \<and> (\<exists>xs. distinct xs \<and> set xs = symbols q - symbols p
            \<and> header (emitter q) = header (emitter p)
                @ ''#include <stdio.h>\<newline>int main(void) {\<newline>''
                @ concat (map header_declaration xs)))
   \<and> (program (Parser_init ts Emitter_init) = Inr q \<longrightarrow>
        (\<exists>xs. distinct xs \<and> set xs = symbols q
            \<and> header (emitter q) = ''#include <stdio.h>\<newline>int main(void) {\<newline>''
                @ concat (map header_declaration xs)))
   \<and> ((checkToken NOCAP p \<or> checkToken PREACH p) \<and> statement p = Inr q \<longrightarrow>
        symbols q = insert (text' (peekToken p)) (symbols p)
      \<and> header (emitter q) = header (emitter p)
          @ (if text' (peekToken p) \<in> symbols p then []
             else header_declaration (text' (peekToken p))))"
proof (intro conjI impI)
  assume "statement p = Inr q \<or> statement p = Inl (e, q)
      \<or> statements_until k p = Inr q \<or> statements_until k p = Inl (e, q)"
  then show "grows p q"
    using outcome_InrD [OF statement_outcome [OF closed_grows grows_refl], of p q]
      outcome_InlD [OF statement_outcome [OF closed_grows grows_refl], of p e q]
      outcome_InrD [OF statements_until_outcome [OF closed_grows grows_refl], of k p q]
      outcome_InlD [OF statements_until_outcome [OF closed_grows grows_refl], of k p e q]
    by blast
next
  assume "program p = Inr q \<or> program p = Inl (e, q)"
  from program_grows [OF this]
  show "symbols p \<subseteq> symbols q"
    and "\<exists>xs. distinct xs \<and> set xs = symbols q - symbols p
            \<and> header (emitter q) = header (emitter p)
                @ ''#include <stdio.h>\<newline>int main(void) {\<newline>''
                @ concat (map header_declaration xs)"
    by (simp_all add: grows_def)
next
  assume "program (Parser_init ts Emitter_init) = Inr q"
  then have "program (Parser_init ts Emitter_init) = Inr q
      \<or> program (Parser_init ts Emitter_init) = Inl (e, q)"
    by simp
  from program_grows [OF this]
  show "\<exists>xs. distinct xs \<and> set xs = symbols q
            \<and> header (emitter q) = ''#include <stdio.h>\<newline>int main(void) {\<newline>''
                @ concat (map header_declaration xs)"
    by (simp add: grows_def Parser_init_def Emitter_init_def split_def Let_def)
next
  assume a: "(checkToken NOCAP p \<or> checkToken PREACH p) \<and> statement p = Inr q"
  note S = steady_same_declarations
  let ?t = "text' (peekToken p)"
  let ?p' = "if ?t \<notin> symbols p
      then headerLine (''float '' @ ?t @ '';'') (nextToken p\<lparr>symbols := insert ?t (symbols p)\<rparr>)
      else nextToken p"
  have r: "same_declarations ?p' ?p'" by (rule steady_refl [OF S])
  have p': "symbols ?p' = insert ?t (symbols p)"
    "header (emitter ?p') = header (emitter p)
      @ (if ?t \<in> symbols p then [] else header_declaration ?t)"
    by (auto simp: header_declaration_def)
  from a have "outcome same_declarations ?p' (statement p)"
  proof (elim conjE disjE)
    assume "checkToken NOCAP p"
    then have k: "kind (curToken p) = NOCAP" by (simp add: checkToken_def)
    have "statement p =
      and_then
        (and_then (match IDENT (emit (?t @ '' = '') ?p')) (\<lambda>p.
         and_then (match EQ p) (\<lambda>p.
         and_then (expression p) (\<lambda>p.
         Inr (emitLine '';'' p)))))
        nl"
      by (subst statement.simps) (simp add: checkToken_def k Let_def)
    then show ?thesis
      by (simp only:)
        (intro outcome_and_then outcome_Inr match_outcome [OF S] expression_outcome [OF S]
          nl_outcome [OF S] steady_emit [OF S] steady_emitLine [OF S] r; assumption)
  next
    assume "checkToken PREACH p"
    then have k: "kind (curToken p) = PREACH" by (simp add: checkToken_def)
    have "statement p =
      and_then
        (match IDENT
           (emitLine ''}''
           (emitLine ''*s\");''
           (emit ''scanf(\"%''
           (emitLine (?t @ '' = 0;'')
           (emitLine (''if(0 == scanf(\"%f\", &'' @ ?t @ '')) {'') ?p'))))))
        nl"
      by (subst statement.simps) (simp add: checkToken_def k Let_def)
    then show ?thesis
      by (simp only:)
        (intro outcome_and_then outcome_Inr match_outcome [OF S]
          nl_outcome [OF S] steady_emit [OF S] steady_emitLine [OF S] r; assumption)
  qed
  with a have "same_declarations ?p' q"
    by (simp add: outcome_def)
  with p' show "symbols q = insert ?t (symbols p)"
    and "header (emitter q) = header (emitter p)
          @ (if ?t \<in> symbols p then [] else header_declaration ?t)"
    by (simp_all add: same_declarations_def)
qed

theorem symbols_grow_and_are_declared_once_witness:
  "statement
     (Parser_init
       [Token_init ''NOCAP'' NOCAP, Token_init ''x'' IDENT, Token_init ''='' EQ,
        Token_init ''1'' NUMBER, Token_init ''\<newline>'' NEWLINE,
        Token_init ''NOCAP'' NOCAP, Token_init ''x'' IDENT, Token_init ''='' EQ,
        Token_init ''2'' NUMBER, Token_init ''\<newline>'' NEWLINE] Emitter_init)
   = Inr \<lparr>lexer = [Token_init ''='' EQ, Token_init ''2'' NUMBER, Token_init ''\<newline>'' NEWLINE],
       emitter = \<lparr>header = ''float x;\<newline>'', code = ''x = 1;\<newline>''\<rparr>,
       symbols = {''x''}, labelsDeclared = {}, labelsGotoed = [],
       curToken = Token_init ''NOCAP'' NOCAP, peekToken = Token_init ''x'' IDENT\<rparr>
   \<and> statement
       \<lparr>lexer = [Token_init ''='' EQ, Token_init ''2'' NUMBER, Token_init ''\<newline>'' NEWLINE],
        emitter = \<lparr>header = ''float x;\<newline>'', code = ''x = 1;\<newline>''\<rparr>,
        symbols = {''x''}, labelsDeclared = {}, labelsGotoed = [],
        curToken = Token_init ''NOCAP'' NOCAP, peekToken = Token_init ''x'' IDENT\<rparr>
   = Inr \<lparr>lexer = [],
       emitter = \<lparr>header = ''float x;\<newline>'', code = ''x = 1;\<newline>x = 2;\<newline>''\<rparr>,
       symbols = {''x''}, labelsDeclared = {}, labelsGotoed = [],
       curToken = Token_init [] EOF, peekToken = Token_init [] EOF\<rparr>
   \<and> (\<exists>q. program (Parser_init
       [Token_init ''NOCAP'' NOCAP, Token_init ''x'' IDENT, Token_init ''='' EQ,
        Token_init ''1'' NUMBER, Token_init ''\<newline>'' NEWLINE,
        Token_init ''NOCAP'' NOCAP, Token_init ''x'' IDENT, Token_init ''='' EQ,
        Token_init ''2'' NUMBER, Token_init ''\<newline>'' NEWLINE] Emitter_init) = Inr q
      \<and> symbols q = {''x''}
      \<and> header (emitter q) = ''#include <stdio.h>\<newline>int main(void) {\<newline>float x;\<newline>''
      \<and> (\<exists>xs. distinct xs \<and> set xs = symbols q
            \<and> header (emitter q) = ''#include <stdio.h>\<newline>int main(void) {\<newline>''
                @ concat (map header_declaration xs)))"
proof -
  let ?ts = "[Token_init ''NOCAP'' NOCAP, Token_init ''x'' IDENT, Token_init ''='' EQ,
        Token_init ''1'' NUMBER, Token_init ''\<newline>'' NEWLINE,
        Token_init ''NOCAP'' NOCAP, Token_init ''x'' IDENT, Token_init ''='' EQ,
        Token_init ''2'' NUMBER, Token_init ''\<newline>'' NEWLINE]"
  let ?p = "Parser_init ?ts Emitter_init"
  let ?q1 = "\<lparr>lexer = [Token_init ''='' EQ, Token_init ''2'' NUMBER, Token_init ''\<newline>'' NEWLINE],
       emitter = \<lparr>header = ''float x;\<newline>'', code = ''x = 1;\<newline>''\<rparr>,
       symbols = {''x''}, labelsDeclared = {}, labelsGotoed = [],
       curToken = Token_init ''NOCAP'' NOCAP, peekToken = Token_init ''x'' IDENT\<rparr>"
  let ?q2 = "\<lparr>lexer = [],
       emitter = \<lparr>header = ''float x;\<newline>'', code = ''x = 1;\<newline>x = 2;\<newline>''\<rparr>,
       symbols = {''x''}, labelsDeclared = {}, labelsGotoed = [],
       curToken = Token_init [] EOF, peekToken = Token_init [] EOF\<rparr>"
  let ?q = "\<lparr>lexer = [],
       emitter = \<lparr>header = ''#include <stdio.h>\<newline>int main(void) {\<newline>float x;\<newline>'',
         code = ''x = 1;\<newline>x = 2;\<newline>return 0;\<newline>}\<newline>''\<rparr>,
       symbols = {''x''}, labelsDeclared = {}, labelsGotoed = [],
       curToken = Token_init [] EOF, peekToken = Token_init [] EOF\<rparr>"
  have 1: "statement ?p = Inr ?q1" by (simp add: run_simps)
  have 2: "statement ?q1 = Inr ?q2" by (simp add: run_simps)
  have 3: "program ?p = Inr ?q" by (simp add: run_simps)
  have 5: "checkToken NOCAP ?p" "checkToken NOCAP ?q1" by (simp_all add: cursor_simps)
  from symbols_grow_and_are_declared_once [where p = ?p and q = ?q1] 1 5(1)
  have "grows ?p ?q1" by blast
  moreover
  from symbols_grow_and_are_declared_once [where p = ?q1 and q = ?q2] 2 5(2)
  have "header (emitter ?q2) = header (emitter ?q1)
      @ (if text' (peekToken ?q1) \<in> symbols ?q1 then []
         else header_declaration (text' (peekToken ?q1)))"
    by blast
  moreover
  from symbols_grow_and_are_declared_once [where p = ?p and q = ?q and ts = ?ts] 3
  have "\<exists>xs. distinct xs \<and> set xs = symbols ?q
            \<and> header (emitter ?q) = ''#include <stdio.h>\<newline>int main(void) {\<newline>''
                @ concat (map header_declaration xs)"
    by blast
  ultimately show ?thesis
    using 1 2 3 by simp
qed

lemma statement_consumes: "statement p = Inr q \<Longrightarrow> remaining q < remaining p"
  by (rule statement_consumes_partial [OF spec [OF statement_total]])

lemma statements_until_stops: "statements_until k p = Inr q \<Longrightarrow> checkToken k q"
proof (induction "remaining p" arbitrary: p rule: less_induct)
  case less
  show ?case
  proof (cases "checkToken k p")
    case True
    with less.prems show ?thesis
      by (subst (asm) statements_until.simps) simp
  next
    case False
    with less.prems obtain p' where s: "statement p = Inr p'" and u: "statements_until k p' = Inr q"
      by (subst (asm) statements_until.simps) (auto simp: and_then_Inr)
    from less.hyps [OF statement_consumes [OF s] u] show ?thesis .
  qed
qed

lemma closed_any: "closed (\<lambda>p q. True)"
  by (simp add: closed_def steady_def)

lemma statement_parse_error: "statement p = Inl (e, q) \<Longrightarrow> parse_error e"
  using outcome_InlD [OF statement_outcome [OF closed_any]] by blast

lemma statements_until_parse_error: "statements_until k p = Inl (e, q) \<Longrightarrow> parse_error e"
  using outcome_InlD [OF statements_until_outcome [OF closed_any]] by blast

text \<open>
  C2. A program fails with the error of a jump to an undeclared label exactly when all of
  its statements have been parsed and, in the state reached at the end of the token
  stream, some label that was jumped to is not among the declared labels. When it fails
  so, the cursor is at end-of-file and the label named by the error is such a label; when
  all statements have been parsed and every label that was jumped to is declared, the
  program returns. No statement fails with that error: a jump statement whose target is
  an identifier only records the target, emits the jump and goes on to the newline,
  whatever the declared labels are at that point.
\<close>

theorem labels_checked_after_parsing:
  "((\<exists>l q. program p = Inl (UndeclaredLabel l, q)) \<longleftrightarrow>
      (\<exists>p1. statements_until EOF
          (skip_newlines (headerLine ''int main(void) {'' (headerLine ''#include <stdio.h>'' p)))
          = Inr p1
        \<and> (\<exists>l\<in>set (labelsGotoed p1). l \<notin> labelsDeclared p1)))
   \<and> (program p = Inl (UndeclaredLabel l, q) \<longrightarrow>
        checkToken EOF q \<and> l \<in> set (labelsGotoed q) \<and> l \<notin> labelsDeclared q)
   \<and> (\<forall>p1. statements_until EOF
          (skip_newlines (headerLine ''int main(void) {'' (headerLine ''#include <stdio.h>'' p)))
          = Inr p1
        \<and> set (labelsGotoed p1) \<subseteq> labelsDeclared p1 \<longrightarrow>
        program p = Inr (emitLine ''}'' (emitLine ''return 0;'' p1)))
   \<and> (statement p = Inl (e, q) \<or> statements_until k p = Inl (e, q) \<longrightarrow> e \<noteq> UndeclaredLabel l)
   \<and> (checkToken GOTO p \<and> checkPeek IDENT p \<longrightarrow>
        statement p =
          nl (nextToken (emitLine (''goto'' @ text' (peekToken p) @ '';'')
                (nextToken p\<lparr>labelsGotoed := add (text' (peekToken p)) (labelsGotoed p)\<rparr>))))"
proof -
  let ?parse = "statements_until EOF
      (skip_newlines (headerLine ''int main(void) {'' (headerLine ''#include <stdio.h>'' p)))"
  show ?thesis
  proof (intro conjI impI allI iffI)
    assume "\<exists>l q. program p = Inl (UndeclaredLabel l, q)"
    then obtain l q where f: "program p = Inl (UndeclaredLabel l, q)" by blast
    have "?parse \<noteq> Inl (UndeclaredLabel l, q)"
      using statements_until_parse_error [of EOF _ "UndeclaredLabel l" q] by auto
    with program_cases [of p q "UndeclaredLabel l"] f
    show "\<exists>p1. ?parse = Inr p1 \<and> (\<exists>l\<in>set (labelsGotoed p1). l \<notin> labelsDeclared p1)"
      by auto
  next
    assume "\<exists>p1. ?parse = Inr p1 \<and> (\<exists>l\<in>set (labelsGotoed p1). l \<notin> labelsDeclared p1)"
    then obtain p1 where p1: "?parse = Inr p1"
      and "\<exists>l\<in>set (labelsGotoed p1). l \<notin> labelsDeclared p1"
      by blast
    then have "\<exists>l\<in>set (labelsGotoed p1).
        l \<notin> labelsDeclared (emitLine ''}'' (emitLine ''return 0;'' p1))"
      by simp
    from check_labels_fails [OF this] p1
    show "\<exists>l q. program p = Inl (UndeclaredLabel l, q)"
      by (auto simp: program_def)
  next
    assume f: "program p = Inl (UndeclaredLabel l, q)"
    have "?parse \<noteq> Inl (UndeclaredLabel l, q)"
      using statements_until_parse_error [of EOF _ "UndeclaredLabel l" q] by auto
    with program_cases [of p q "UndeclaredLabel l"] f
    obtain p1 where p1: "?parse = Inr p1" and q: "q = emitLine ''}'' (emitLine ''return 0;'' p1)"
      and l: "l \<in> set (labelsGotoed p1)" "l \<notin> labelsDeclared p1"
      by auto
    from statements_until_stops [OF p1] q l
    show "checkToken EOF q" and "l \<in> set (labelsGotoed q)" and "l \<notin> labelsDeclared q"
      by simp_all
  next
    fix p1
    assume "?parse = Inr p1 \<and> set (labelsGotoed p1) \<subseteq> labelsDeclared p1"
    then show "program p = Inr (emitLine ''}'' (emitLine ''return 0;'' p1))"
      by (simp add: program_def check_labels_Inr)
  next
    assume "statement p = Inl (e, q) \<or> statements_until k p = Inl (e, q)"
    then have "parse_error e"
      using statement_parse_error statements_until_parse_error by blast
    then show "e \<noteq> UndeclaredLabel l" by auto
  next
    assume "checkToken GOTO p \<and> checkPeek IDENT p"
    then have k: "kind (curToken p) = GOTO" and i: "kind (peekToken p) = IDENT"
      by (simp_all add: checkToken_def checkPeek_def)
    show "statement p =
          nl (nextToken (emitLine (''goto'' @ text' (peekToken p) @ '';'')
                (nextToken p\<lparr>labelsGotoed := add (text' (peekToken p)) (labelsGotoed p)\<rparr>)))"
      by (subst statement.simps) (simp add: checkToken_def k i Let_def match_def emitLine_def)
  qed
qed

theorem labels_checked_after_parsing_witness:
  "program (Parser_init
     [Token_init ''GOTO'' GOTO, Token_init ''foo'' IDENT, Token_init ''\<newline>'' NEWLINE,
      Token_init ''LABEL'' LABEL, Token_init ''foo'' IDENT, Token_init ''\<newline>'' NEWLINE] Emitter_init)
   = Inr \<lparr>lexer = [],
       emitter = \<lparr>header = ''#include <stdio.h>\<newline>int main(void) {\<newline>'',
         code = ''gotofoo;\<newline>foo:\<newline>return 0;\<newline>}\<newline>''\<rparr>,
       symbols = {}, labelsDeclared = {''foo''}, labelsGotoed = [''foo''],
       curToken = Token_init [] EOF, peekToken = Token_init [] EOF\<rparr>
   \<and> (\<exists>l q. program (Parser_init
       [Token_init ''GOTO'' GOTO, Token_init ''foo'' IDENT, Token_init ''\<newline>'' NEWLINE] Emitter_init)
       = Inl (UndeclaredLabel l, q))
   \<and> statement (Parser_init
       [Token_init ''GOTO'' GOTO, Token_init ''foo'' IDENT, Token_init ''\<newline>'' NEWLINE]
       Emitter_init)
     = Inr \<lparr>lexer = [], emitter = \<lparr>header = [], code = ''gotofoo;\<newline>''\<rparr>,
         symbols = {}, labelsDeclared = {}, labelsGotoed = [''foo''],
         curToken = Token_init [] EOF, peekToken = Token_init [] EOF\<rparr>"
proof -
  let ?a = "Parser_init
     [Token_init ''GOTO'' GOTO, Token_init ''foo'' IDENT, Token_init ''\<newline>'' NEWLINE,
      Token_init ''LABEL'' LABEL, Token_init ''foo'' IDENT, Token_init ''\<newline>'' NEWLINE]
     Emitter_init"
  let ?a1 = "\<lparr>lexer = [],
       emitter = \<lparr>header = ''#include <stdio.h>\<newline>int main(void) {\<newline>'',
         code = ''gotofoo;\<newline>foo:\<newline>''\<rparr>,
       symbols = {}, labelsDeclared = {''foo''}, labelsGotoed = [''foo''],
       curToken = Token_init [] EOF, peekToken = Token_init [] EOF\<rparr>"
  let ?b = "Parser_init
     [Token_init ''GOTO'' GOTO, Token_init ''foo'' IDENT, Token_init ''\<newline>'' NEWLINE]
     Emitter_init"
  let ?b1 = "\<lparr>lexer = [],
       emitter = \<lparr>header = ''#include <stdio.h>\<newline>int main(void) {\<newline>'',
         code = ''gotofoo;\<newline>''\<rparr>,
       symbols = {}, labelsDeclared = {}, labelsGotoed = [''foo''],
       curToken = Token_init [] EOF, peekToken = Token_init [] EOF\<rparr>"
  have a: "statements_until EOF
      (skip_newlines (headerLine ''int main(void) {'' (headerLine ''#include <stdio.h>'' ?a)))
      = Inr ?a1"
    by (simp add: run_simps)
  have b: "statements_until EOF
      (skip_newlines (headerLine ''int main(void) {'' (headerLine ''#include <stdio.h>'' ?b)))
      = Inr ?b1"
    by (simp add: run_simps)
  have "set (labelsGotoed ?a1) \<subseteq> labelsDeclared ?a1" by simp
  with a labels_checked_after_parsing [where p = ?a]
  have "program ?a = Inr (emitLine ''}'' (emitLine ''return 0;'' ?a1))" by blast
  moreover
  have "\<exists>l\<in>set (labelsGotoed ?b1). l \<notin> labelsDeclared ?b1" by simp
  with b labels_checked_after_parsing [where p = ?b]
  have "\<exists>l q. program ?b = Inl (UndeclaredLabel l, q)" by blast
  moreover
  have "checkToken GOTO ?b \<and> checkPeek IDENT ?b" by (simp add: cursor_simps)
  with labels_checked_after_parsing [where p = ?b]
  have "statement ?b =
      nl (nextToken (emitLine (''goto'' @ text' (peekToken ?b) @ '';'')
            (nextToken ?b\<lparr>labelsGotoed := add (text' (peekToken ?b)) (labelsGotoed ?b)\<rparr>)))"
    by blast
  ultimately show ?thesis
    by (simp add: cursor_simps)
qed

end
